theory Spec2Isabelle
  imports Main
begin

section \<open>JavaScript values used by the image processor\<close>

text \<open>
  Strings are character lists; a character stands for one code unit below 256.
  A JavaScript number that comes out of \<open>parseInt\<close> is an integer or NaN: the type
  \<open>number\<close> is \<open>int option\<close> with \<open>None\<close> for NaN. The rounding of doubles beyond
  2^53 is outside the model.
\<close>

type_synonym number = "int option"

type_synonym buffer = string

text \<open>What a \<open>catch (error)\<close> clause receives: an \<open>Error\<close> instance with its message, or
  some other thrown value (the branch \<open>error instanceof Error ? error.message : 'Unknown error'\<close>).\<close>

datatype thrown = Error string | NonError

fun message_of :: "thrown \<Rightarrow> string" where
  "message_of (Error m) = m"
| "message_of NonError = ''Unknown error''"

subsection \<open>String primitives: trim, split, toLowerCase, parseInt, toString\<close>

text \<open>WhiteSpace and LineTerminator code units below 256: TAB, LF, VT, FF, CR, SP, NBSP.\<close>

definition isWhiteSpace :: "char \<Rightarrow> bool" where
  "isWhiteSpace c \<longleftrightarrow> (of_char c :: nat) \<in> {9, 10, 11, 12, 13, 32, 160}"

definition trim :: "string \<Rightarrow> string" where
  "trim s = rev (dropWhile isWhiteSpace (rev (dropWhile isWhiteSpace s)))"

text \<open>\<open>s.split(sep)\<close> for a one-character separator: never the empty array.\<close>

fun split :: "char \<Rightarrow> string \<Rightarrow> string list" where
  "split sep [] = [[]]"
| "split sep (c # cs) =
     (if c = sep then [] # split sep cs
      else (case split sep cs of
              [] \<Rightarrow> [[c]]
            | x # xs \<Rightarrow> (c # x) # xs))"

definition toLowerChar :: "char \<Rightarrow> char" where
  "toLowerChar c =
     (let n = (of_char c :: nat)
      in if (65 \<le> n \<and> n \<le> 90) \<or> (192 \<le> n \<and> n \<le> 222 \<and> n \<noteq> 215)
         then char_of (n + 32) else c)"

definition toLowerCase :: "string \<Rightarrow> string" where
  "toLowerCase s = map toLowerChar s"

definition isDigit :: "char \<Rightarrow> bool" where
  "isDigit c \<longleftrightarrow> 48 \<le> (of_char c :: nat) \<and> (of_char c :: nat) \<le> 57"

definition digitValue :: "char \<Rightarrow> int" where
  "digitValue c = int (of_char c) - 48"

definition digitsValue :: "string \<Rightarrow> int" where
  "digitsValue ds = foldl (\<lambda>acc c. 10 * acc + digitValue c) 0 ds"

text \<open>
  \<open>parseInt(s, 10)\<close>: leading white space is skipped, one sign is read, then the longest
  run of decimal digits; what follows the digits is ignored. No digit gives NaN.
\<close>

definition parseInt :: "string \<Rightarrow> number" where
  "parseInt s =
     (let S = dropWhile isWhiteSpace s;
          sign = (case S of c # _ \<Rightarrow> if c = CHR ''-'' then - 1 else 1 | [] \<Rightarrow> (1::int));
          S' = (case S of c # cs \<Rightarrow> if c = CHR ''+'' \<or> c = CHR ''-'' then cs else S | [] \<Rightarrow> S);
          Z = takeWhile isDigit S'
      in if Z = [] then None else Some (sign * digitsValue Z))"

function natToString :: "nat \<Rightarrow> string" where
  "natToString n =
     (if n < 10 then [char_of (48 + n)]
      else natToString (n div 10) @ [char_of (48 + n mod 10)])"
  by pat_completeness auto
termination
  by (relation "measure (\<lambda>n. n)") auto

text \<open>\<open>Number.prototype.toString()\<close> on an integer or NaN.\<close>

definition numberToString :: "number \<Rightarrow> string" where
  "numberToString v =
     (case v of
        None \<Rightarrow> ''NaN''
      | Some i \<Rightarrow> if i < 0 then CHR ''-'' # natToString (nat (- i)) else natToString (nat i))"

section \<open>Row Source: readCSV and validateRow\<close>

text \<open>A mapped line before validation: \<open>Partial<CSVRow>\<close>, a missing column is \<open>undefined\<close>.\<close>

record partial_row =
  p_id :: "string option"
  p_url :: "string option"
  p_index :: "string option"

record CSVRow =
  row_id :: string
  row_index :: string
  row_url :: string

definition empty_row :: partial_row where
  "empty_row = \<lparr>p_id = None, p_url = None, p_index = None\<rparr>"

text \<open>\<open>values[index]\<close>: \<open>undefined\<close> past the end of the array.\<close>

definition at_index :: "'a list \<Rightarrow> nat \<Rightarrow> 'a option" where
  "at_index xs i = (if i < length xs then Some (xs ! i) else None)"

text \<open>\<open>obj[header] = values[index]\<close>; a header other than the three columns sets a property
  that nothing reads.\<close>

definition assign :: "string \<Rightarrow> string option \<Rightarrow> partial_row \<Rightarrow> partial_row" where
  "assign header v obj =
     (if header = ''id'' then obj\<lparr>p_id := v\<rparr>
      else if header = ''url'' then obj\<lparr>p_url := v\<rparr>
      else if header = ''index'' then obj\<lparr>p_index := v\<rparr>
      else obj)"

definition mapRow :: "string list \<Rightarrow> string \<Rightarrow> partial_row" where
  "mapRow headers row =
     (let values = map trim (split CHR '','' row)
      in foldl (\<lambda>obj (header, index). assign header (at_index values index) obj)
           empty_row (zip headers [0..<length headers]))"

text \<open>\<open>new URL(url)\<close> is the platform's parser; \<open>URL_parses\<close> says where it does not throw.\<close>

definition validateUrl :: "(string \<Rightarrow> bool) \<Rightarrow> string \<Rightarrow> bool" where
  "validateUrl URL_parses url = URL_parses url"

text \<open>The chain \<open>row.id && row.url && row.index && !isNaN(parseInt(row.index, 10)) &&
  this.validateUrl(row.url)\<close>, left to right; \<open>undefined\<close> and the empty string are falsy.\<close>

definition validateRow :: "(string \<Rightarrow> bool) \<Rightarrow> partial_row \<Rightarrow> bool" where
  "validateRow URL_parses row =
     (case p_id row of None \<Rightarrow> False | Some i \<Rightarrow>
        if i = [] then False else
     (case p_url row of None \<Rightarrow> False | Some u \<Rightarrow>
        if u = [] then False else
     (case p_index row of None \<Rightarrow> False | Some x \<Rightarrow>
        if x = [] then False else
        if parseInt x = None then False else validateUrl URL_parses u)))"

text \<open>The cast \<open>as CSVRow\<close>; on a validated row every field is a string.\<close>

definition as_CSVRow :: "partial_row \<Rightarrow> CSVRow" where
  "as_CSVRow r =
     \<lparr>row_id = (case p_id r of Some s \<Rightarrow> s | None \<Rightarrow> []),
      row_index = (case p_index r of Some s \<Rightarrow> s | None \<Rightarrow> []),
      row_url = (case p_url r of Some s \<Rightarrow> s | None \<Rightarrow> [])\<rparr>"

text \<open>The lines of the file that are not blank, the header first.\<close>

definition csv_lines :: "string \<Rightarrow> string list" where
  "csv_lines data = filter (\<lambda>row. trim row \<noteq> []) (split CHR ''\<newline>'' data)"

definition csv_headers :: "string \<Rightarrow> string list" where
  "csv_headers headersLine = map (\<lambda>header. toLowerCase (trim header)) (split CHR '','' headersLine)"

text \<open>The body of \<open>readCSV\<close>'s \<open>try\<close> block on the text of the file.\<close>

definition parseCSV :: "(string \<Rightarrow> bool) \<Rightarrow> string \<Rightarrow> thrown + CSVRow list" where
  "parseCSV URL_parses data =
     (case csv_lines data of
        [] \<Rightarrow> Inl (Error ''CSV file is empty or has no headers'')
      | headersLine # rows \<Rightarrow>
          (let headers = csv_headers headersLine
           in if ''id'' \<notin> set headers \<or> ''url'' \<notin> set headers \<or> ''index'' \<notin> set headers
              then Inl (Error ''Invalid CSV structure: missing required headers'')
              else
                (let mappedRows = map (mapRow headers) rows;
                     validatedRows = filter (validateRow URL_parses) mappedRows
                 in Inr (map as_CSVRow validatedRows))))"

section \<open>The store, the remote hosts and the log\<close>

record image =
  img_id :: string
  img_index :: number
  img_thumbnail :: buffer

text \<open>\<open>attempts\<close> is only ever written by \<open>$inc: {attempts: 1}\<close>, starting from an absent
  field: a natural number. \<open>lastAttempt\<close> is the reading of the clock.\<close>

record failed_image =
  f_id :: string
  f_index :: number
  f_url :: string
  f_error :: string
  f_attempts :: nat
  f_lastAttempt :: nat

record ProcessingResult =
  total :: int
  processed :: int
  failed :: int

text \<open>The messages the code writes, by their template and the values in its holes.\<close>

datatype log_entry =
    Info_Connected
  | Error_Initialization thrown
  | Error_CSV thrown
  | Info_Starting nat
  | Info_Updated string
  | Info_Created string
  | Error_Failed string string thrown
  | Info_Batch nat nat int nat int
  | Error_Processing thrown
  | Info_Result ProcessingResult
  | Info_Disconnected
  | Error_Cleanup thrown
  | Console_Application_Error thrown

text \<open>
  The two collections keep their documents in insertion order. \<open>clock\<close> counts the
  operations sent to the store and to the remote hosts; \<open>exit_status\<close> is set once
  \<open>process.exit\<close> has been called.
\<close>

record world =
  images :: "image list"
  failed_images :: "failed_image list"
  connected :: bool
  clock :: nat
  logged :: "log_entry list"
  exit_status :: "int option"

text \<open>
  What the program does not decide: whether the store operation issued at a given tick
  rejects, what the download and resize of a url gives at a given tick, and the
  outcomes of connecting, of reading the file and of disconnecting.
\<close>

record env =
  URL_parses :: "string \<Rightarrow> bool"
  store_fault :: "nat \<Rightarrow> thrown option"
  fetch_resize :: "nat \<Rightarrow> string \<Rightarrow> thrown + buffer"
  connect_fault :: "thrown option"
  stat_size :: "thrown + int"
  file_data :: "thrown + string"
  disconnect_fault :: "thrown option"

subsection \<open>Asynchronous code that may throw\<close>

type_synonym 'a io = "world \<Rightarrow> (thrown + 'a) \<times> world"

definition io_return :: "'a \<Rightarrow> 'a io" where
  "io_return x w = (Inr x, w)"

definition io_throw :: "thrown \<Rightarrow> 'a io" where
  "io_throw err w = (Inl err, w)"

definition io_bind :: "'a io \<Rightarrow> ('a \<Rightarrow> 'b io) \<Rightarrow> 'b io" where
  "io_bind m f w = (case m w of (Inl err, w') \<Rightarrow> (Inl err, w') | (Inr x, w') \<Rightarrow> f x w')"

definition io_catch :: "'a io \<Rightarrow> (thrown \<Rightarrow> 'a io) \<Rightarrow> 'a io" where
  "io_catch m h w = (case m w of (Inl err, w') \<Rightarrow> h err w' | (Inr x, w') \<Rightarrow> (Inr x, w'))"

text \<open>The logger is a sink: writing a message appends it and does not fail.\<close>

definition logger :: "log_entry \<Rightarrow> unit io" where
  "logger entry w = (Inr (), w\<lparr>logged := logged w @ [entry]\<rparr>)"

definition tick :: "world \<Rightarrow> world" where
  "tick w = w\<lparr>clock := Suc (clock w)\<rparr>"

text \<open>One awaited store operation: it rejects when the environment says so, and leaves the
  collections alone then.\<close>

definition store_op :: "env \<Rightarrow> (world \<Rightarrow> (thrown + 'a) \<times> world) \<Rightarrow> 'a io" where
  "store_op e f w =
     (case store_fault e (clock w) of
        Some err \<Rightarrow> (Inl err, tick w)
      | None \<Rightarrow> (case f w of (r, w') \<Rightarrow> (r, tick w')))"

subsection \<open>The operations of the two models\<close>

fun update_first :: "('a \<Rightarrow> bool) \<Rightarrow> ('a \<Rightarrow> 'a) \<Rightarrow> 'a list \<Rightarrow> 'a list" where
  "update_first P f [] = []"
| "update_first P f (x # xs) = (if P x then f x # xs else x # update_first P f xs)"

fun delete_first :: "('a \<Rightarrow> bool) \<Rightarrow> 'a list \<Rightarrow> 'a list" where
  "delete_first P [] = []"
| "delete_first P (x # xs) = (if P x then xs else x # delete_first P xs)"

definition ImageModel_findOne :: "env \<Rightarrow> string \<Rightarrow> image option io" where
  "ImageModel_findOne e k = store_op e (\<lambda>w. (Inr (find (\<lambda>d. img_id d = k) (images w)), w))"

definition ImageModel_updateOne :: "env \<Rightarrow> string \<Rightarrow> number \<Rightarrow> buffer \<Rightarrow> unit io" where
  "ImageModel_updateOne e k idx thumbnail =
     store_op e (\<lambda>w. (Inr (),
       w\<lparr>images := update_first (\<lambda>d. img_id d = k)
                     (\<lambda>d. d\<lparr>img_index := idx, img_thumbnail := thumbnail\<rparr>) (images w)\<rparr>))"

text \<open>The schema declares \<open>id\<close> unique: inserting a second document with an id fails.\<close>

definition ImageModel_create :: "env \<Rightarrow> image \<Rightarrow> unit io" where
  "ImageModel_create e doc =
     store_op e (\<lambda>w.
       if list_ex (\<lambda>d. img_id d = img_id doc) (images w)
       then (Inl (Error ''E11000 duplicate key error''), w)
       else (Inr (), w\<lparr>images := images w @ [doc]\<rparr>))"

definition FailedImageModel_deleteOne :: "env \<Rightarrow> string \<Rightarrow> unit io" where
  "FailedImageModel_deleteOne e k =
     store_op e (\<lambda>w. (Inr (),
       w\<lparr>failed_images := delete_first (\<lambda>d. f_id d = k) (failed_images w)\<rparr>))"

text \<open>\<open>findOneAndUpdate({id}, {id, index, url, error, $inc: {attempts: 1}, lastAttempt},
  {upsert: true})\<close>: the plain fields are set, \<open>attempts\<close> is incremented; with no document
  for the id one is inserted, and its \<open>attempts\<close> is the increment of nothing.\<close>

definition upsert_failure ::
  "string \<Rightarrow> number \<Rightarrow> string \<Rightarrow> string \<Rightarrow> nat \<Rightarrow> failed_image list \<Rightarrow> failed_image list" where
  "upsert_failure k idx url msg now docs =
     (if list_ex (\<lambda>d. f_id d = k) docs
      then update_first (\<lambda>d. f_id d = k)
             (\<lambda>d. d\<lparr>f_id := k, f_index := idx, f_url := url, f_error := msg,
                     f_attempts := f_attempts d + 1, f_lastAttempt := now\<rparr>) docs
      else docs @ [\<lparr>f_id = k, f_index = idx, f_url = url, f_error = msg,
                     f_attempts = 1, f_lastAttempt = now\<rparr>])"

definition FailedImageModel_findOneAndUpdate ::
  "env \<Rightarrow> string \<Rightarrow> number \<Rightarrow> string \<Rightarrow> string \<Rightarrow> nat \<Rightarrow> unit io" where
  "FailedImageModel_findOneAndUpdate e k idx url msg now =
     store_op e (\<lambda>w. (Inr (),
       w\<lparr>failed_images := upsert_failure k idx url msg now (failed_images w)\<rparr>))"


section \<open>Thumbnail Fetcher\<close>

definition processThumbnail :: "env \<Rightarrow> string \<Rightarrow> string \<Rightarrow> buffer io" where
  "processThumbnail e ident url w =
     (case fetch_resize e (clock w) url of
        Inl error \<Rightarrow>
          (Inl (Error (''Failed to process thumbnail for ID '' @ ident @ '': '' @ message_of error)),
           tick w)
      | Inr thumbnail \<Rightarrow> (Inr thumbnail, tick w))"

section \<open>Batch Orchestrator\<close>

text \<open>The \<open>try\<close> block of the loop of \<open>processChunk\<close>, up to \<open>successCount++\<close>.\<close>

definition try_row :: "env \<Rightarrow> CSVRow \<Rightarrow> unit io" where
  "try_row e row =
     io_bind (ImageModel_findOne e (row_id row)) (\<lambda>existingImage.
     io_bind (processThumbnail e (row_id row) (row_url row)) (\<lambda>thumbnail.
     io_bind (case existingImage of
                Some _ \<Rightarrow>
                  io_bind (ImageModel_updateOne e (row_id row) (parseInt (row_index row)) thumbnail)
                    (\<lambda>_. logger (Info_Updated (row_id row)))
              | None \<Rightarrow>
                  io_bind (ImageModel_create e
                             \<lparr>img_id = row_id row, img_index = parseInt (row_index row),
                              img_thumbnail = thumbnail\<rparr>)
                    (\<lambda>_. logger (Info_Created (row_id row)))) (\<lambda>_.
     FailedImageModel_deleteOne e (row_id row))))"

text \<open>Its \<open>catch\<close> block: the write to the failure ledger is awaited outside any \<open>try\<close>.\<close>

definition catch_row :: "env \<Rightarrow> CSVRow \<Rightarrow> thrown \<Rightarrow> unit io" where
  "catch_row e row error =
     (let errorMessage = message_of error
      in io_bind (\<lambda>w. FailedImageModel_findOneAndUpdate e (row_id row) (parseInt (row_index row))
                        (row_url row) errorMessage (clock w) w) (\<lambda>_.
         logger (Error_Failed (row_id row) (row_url row) error)))"

fun processChunk_loop :: "env \<Rightarrow> CSVRow list \<Rightarrow> int \<Rightarrow> int io" where
  "processChunk_loop e [] successCount = io_return successCount"
| "processChunk_loop e (row # rows) successCount =
     io_bind
       (io_catch (io_bind (try_row e row) (\<lambda>_. io_return (successCount + 1)))
                 (\<lambda>error. io_bind (catch_row e row error) (\<lambda>_. io_return successCount)))
       (processChunk_loop e rows)"

definition processChunk :: "env \<Rightarrow> CSVRow list \<Rightarrow> int io" where
  "processChunk e rows = processChunk_loop e rows 0"

text \<open>lodash's \<open>chunk(array, size)\<close>: the size is truncated to an integer (NaN to 0) and
  clamped at 0; an empty array or a size below 1 gives no chunk at all.\<close>

definition toInteger :: "number \<Rightarrow> int" where
  "toInteger v = (case v of None \<Rightarrow> 0 | Some i \<Rightarrow> i)"

function slices :: "'a list \<Rightarrow> nat \<Rightarrow> 'a list list" where
  "slices array n =
     (if array = [] \<or> n = 0 then []
      else take n array # slices (drop n array) n)"
  by pat_completeness auto
termination
  by (relation "measure (\<lambda>(array, n). length array)") auto

definition chunk :: "'a list \<Rightarrow> number \<Rightarrow> 'a list list" where
  "chunk array sz =
     (let n = max (toInteger sz) 0
      in if array = [] \<or> n < 1 then [] else slices array (nat n))"

fun processImages_loop ::
  "env \<Rightarrow> nat \<Rightarrow> nat \<Rightarrow> (nat \<times> CSVRow list) list \<Rightarrow> int \<times> int \<Rightarrow> (int \<times> int) io" where
  "processImages_loop e nchunks nrows [] counts = io_return counts"
| "processImages_loop e nchunks nrows ((index, currentChunk) # rest) (processedCount, failedCount) =
     io_bind (processChunk e currentChunk) (\<lambda>successCount.
       (let processedCount' = processedCount + successCount;
            failedCount' = failedCount + (int (length currentChunk) - successCount)
        in io_bind (logger (Info_Batch (index + 1) nchunks processedCount' nrows failedCount')) (\<lambda>_.
           processImages_loop e nchunks nrows rest (processedCount', failedCount'))))"

definition processImages :: "env \<Rightarrow> number \<Rightarrow> CSVRow list \<Rightarrow> ProcessingResult io" where
  "processImages e batchSize rows =
     (let chunks = chunk rows batchSize
      in io_bind (processImages_loop e (length chunks) (length rows) (enumerate 0 chunks) (0, 0))
           (\<lambda>(processedCount, failedCount).
              io_return \<lparr>total = int (length rows), processed = processedCount,
                         failed = failedCount\<rparr>))"

section \<open>Retry Controller\<close>



section \<open>Start-up, shutdown and the process wiring\<close>

record config =
  mongoUri :: string
  batchSize :: number
  maxFileSize :: int
  thumbnailSize :: int

text \<open>The constructor without overrides, from the two environment variables;
  \<open>x || d\<close> takes \<open>d\<close> for an unset or empty variable.\<close>

definition or_default :: "string option \<Rightarrow> string \<Rightarrow> string" where
  "or_default v d = (case v of None \<Rightarrow> d | Some s \<Rightarrow> if s = [] then d else s)"

definition default_config :: "string option \<Rightarrow> string option \<Rightarrow> config" where
  "default_config MONGO_URI DEFAULT_BATCH_SIZE =
     \<lparr>mongoUri = or_default MONGO_URI ''mongodb://localhost:27017/image_processor'',
      batchSize = parseInt (or_default DEFAULT_BATCH_SIZE ''50''),
      maxFileSize = 120 * 1024 * 1024,
      thumbnailSize = 100\<rparr>"

definition mongoose_connect :: "env \<Rightarrow> unit io" where
  "mongoose_connect e w =
     (case connect_fault e of
        Some err \<Rightarrow> (Inl err, w)
      | None \<Rightarrow> (Inr (), w\<lparr>connected := True\<rparr>))"

definition mongoose_disconnect :: "env \<Rightarrow> unit io" where
  "mongoose_disconnect e w =
     (case disconnect_fault e of
        Some err \<Rightarrow> (Inl err, w)
      | None \<Rightarrow> (Inr (), w\<lparr>connected := False\<rparr>))"

definition fs_stat :: "env \<Rightarrow> int io" where
  "fs_stat e w = (stat_size e, w)"

definition fs_readFile :: "env \<Rightarrow> string io" where
  "fs_readFile e w = (file_data e, w)"

definition initialize :: "env \<Rightarrow> config \<Rightarrow> unit io" where
  "initialize e cfg =
     io_catch
       (io_bind (mongoose_connect e) (\<lambda>_.
        io_bind (logger Info_Connected) (\<lambda>_.
        io_bind (fs_stat e) (\<lambda>fileSize.
          if fileSize > maxFileSize cfg
          then io_throw (Error (''File size exceeds limit of ''
                                  @ numberToString (Some (maxFileSize cfg)) @ '' bytes''))
          else io_return ()))))
       (\<lambda>error. io_bind (logger (Error_Initialization error)) (\<lambda>_. io_throw error))"

definition readCSV :: "env \<Rightarrow> CSVRow list io" where
  "readCSV e =
     io_catch
       (io_bind (fs_readFile e) (\<lambda>data.
          case parseCSV (URL_parses e) data of
            Inl err \<Rightarrow> io_throw err
          | Inr validatedRows \<Rightarrow> io_return validatedRows))
       (\<lambda>error. io_bind (logger (Error_CSV error)) (\<lambda>_. io_throw error))"

definition start :: "env \<Rightarrow> config \<Rightarrow> ProcessingResult io" where
  "start e cfg =
     io_catch
       (io_bind (initialize e cfg) (\<lambda>_.
        io_bind (readCSV e) (\<lambda>rows.
        io_bind (logger (Info_Starting (length rows))) (\<lambda>_.
        processImages e (batchSize cfg) rows))))
       (\<lambda>error. io_bind (logger (Error_Processing error)) (\<lambda>_. io_throw error))"

definition cleanup :: "env \<Rightarrow> unit io" where
  "cleanup e =
     io_catch (io_bind (mongoose_disconnect e) (\<lambda>_. logger Info_Disconnected))
              (\<lambda>error. logger (Error_Cleanup error))"

definition main :: "env \<Rightarrow> config \<Rightarrow> ProcessingResult io" where
  "main e cfg =
     io_catch
       (io_bind (start e cfg) (\<lambda>result.
        io_bind (logger (Info_Result result)) (\<lambda>_. io_return result)))
       (\<lambda>error. io_bind (logger (Error_Processing error)) (\<lambda>_. io_throw error))"

text \<open>\<open>process.exit(code)\<close> ends the process at once: no callback that is still pending runs.\<close>

definition process_exit :: "int \<Rightarrow> world \<Rightarrow> world" where
  "process_exit code w = w\<lparr>exit_status := Some code\<rparr>"

definition then_callback :: "world \<Rightarrow> (world \<Rightarrow> world) \<Rightarrow> world" where
  "then_callback w callback = (case exit_status w of None \<Rightarrow> callback w | Some _ \<Rightarrow> w)"

definition catch_handler :: "thrown \<Rightarrow> world \<Rightarrow> world" where
  "catch_handler error w =
     process_exit 1 (w\<lparr>logged := logged w @ [Console_Application_Error error]\<rparr>)"

definition finally_handler :: "env \<Rightarrow> world \<Rightarrow> world" where
  "finally_handler e w = process_exit 0 (snd (cleanup e w))"

text \<open>\<open>main().catch(...).finally(...)\<close>.\<close>

definition run :: "env \<Rightarrow> config \<Rightarrow> world \<Rightarrow> world" where
  "run e cfg w =
     (case main e cfg w of
        (Inl error, w') \<Rightarrow> then_callback (catch_handler error w') (finally_handler e)
      | (Inr result, w') \<Rightarrow> then_callback w' (finally_handler e))"

section \<open>Notions the properties are stated with\<close>

subsection \<open>Row Source\<close>

text \<open>A base-10 integer numeral: an optional sign and then decimal digits, at least one, and
  nothing else.\<close>

definition is_base10_integer :: "string \<Rightarrow> bool" where
  "is_base10_integer s =
     (case s of
        [] \<Rightarrow> False
      | c # cs \<Rightarrow>
          if c = CHR ''+'' \<or> c = CHR ''-'' then cs \<noteq> [] \<and> list_all isDigit cs
          else list_all isDigit s)"

text \<open>The retention rule as the specification words it: a non-empty id, a non-empty url
  that parses, an index that is a base-10 integer.\<close>

definition spec_retained :: "(string \<Rightarrow> bool) \<Rightarrow> partial_row \<Rightarrow> bool" where
  "spec_retained parses r =
     ((case p_id r of None \<Rightarrow> False | Some i \<Rightarrow> i \<noteq> []) \<and>
      (case p_url r of None \<Rightarrow> False | Some u \<Rightarrow> u \<noteq> [] \<and> parses u) \<and>
      (case p_index r of None \<Rightarrow> False | Some x \<Rightarrow> is_base10_integer x))"

text \<open>A string that begins, after white space and one optional sign, with a decimal digit.\<close>

definition has_integer_prefix :: "string \<Rightarrow> bool" where
  "has_integer_prefix s =
     (case dropWhile isWhiteSpace s of
        [] \<Rightarrow> False
      | c # cs \<Rightarrow>
          if c = CHR ''+'' \<or> c = CHR ''-'' then (case cs of [] \<Rightarrow> False | d # _ \<Rightarrow> isDigit d)
          else isDigit c)"

text \<open>The retention rule with the index only required to begin with an integer.\<close>

definition prefix_retained :: "(string \<Rightarrow> bool) \<Rightarrow> partial_row \<Rightarrow> bool" where
  "prefix_retained parses r =
     ((case p_id r of None \<Rightarrow> False | Some i \<Rightarrow> i \<noteq> []) \<and>
      (case p_url r of None \<Rightarrow> False | Some u \<Rightarrow> u \<noteq> [] \<and> parses u) \<and>
      (case p_index r of None \<Rightarrow> False | Some x \<Rightarrow> has_integer_prefix x))"

text \<open>The header is usable: the file has a line that is not blank, and the first such line
  names the three columns.\<close>

definition header_ok :: "string \<Rightarrow> bool" where
  "header_ok data =
     (case csv_lines data of
        [] \<Rightarrow> False
      | headersLine # _ \<Rightarrow>
          ''id'' \<in> set (csv_headers headersLine) \<and> ''url'' \<in> set (csv_headers headersLine) \<and>
          ''index'' \<in> set (csv_headers headersLine))"

text \<open>The lines of the body, mapped against the header.\<close>

definition body_rows :: "string \<Rightarrow> partial_row list" where
  "body_rows data =
     (case csv_lines data of
        [] \<Rightarrow> []
      | headersLine # rows \<Rightarrow> map (mapRow (csv_headers headersLine)) rows)"

subsection \<open>One row, and the rows of a pass\<close>

text \<open>One iteration of the loop of \<open>processChunk\<close>: \<open>True\<close> when the \<open>try\<close> block ran to its
  end, \<open>False\<close> when the \<open>catch\<close> block absorbed a failure; an error that leaves the \<open>catch\<close>
  block leaves the iteration.\<close>

definition row_pass :: "env \<Rightarrow> CSVRow \<Rightarrow> bool io" where
  "row_pass e row =
     io_catch (io_bind (try_row e row) (\<lambda>_. io_return True))
              (\<lambda>error. io_bind (catch_row e row error) (\<lambda>_. io_return False))"

text \<open>The rows one after the other, with the outcome of each.\<close>

fun rows_pass :: "env \<Rightarrow> CSVRow list \<Rightarrow> bool list io" where
  "rows_pass e [] = io_return []"
| "rows_pass e (row # rows) =
     io_bind (row_pass e row) (\<lambda>ok.
     io_bind (rows_pass e rows) (\<lambda>oks. io_return (ok # oks)))"

text \<open>Two worlds with the same collections and the same clock: they differ in what was
  logged at most (and in the state of the process).\<close>

definition store_equal :: "world \<Rightarrow> world \<Rightarrow> bool" where
  "store_equal w v \<longleftrightarrow>
     images w = images v \<and> failed_images w = failed_images v \<and> clock w = clock v"

definition respects_store :: "'a io \<Rightarrow> bool" where
  "respects_store m \<longleftrightarrow>
     (\<forall>w v. store_equal w v \<longrightarrow>
        fst (m w) = fst (m v) \<and> store_equal (snd (m w)) (snd (m v)))"

text \<open>The entry of a collection for an id, as \<open>findOne\<close> sees it.\<close>

definition image_of :: "world \<Rightarrow> string \<Rightarrow> image option" where
  "image_of w k = find (\<lambda>d. img_id d = k) (images w)"

definition failure_of :: "world \<Rightarrow> string \<Rightarrow> failed_image option" where
  "failure_of w k = find (\<lambda>d. f_id d = k) (failed_images w)"








text \<open>The world after the \<open>catch\<close> block has written a failure to the ledger and logged it.\<close>

definition recorded :: "CSVRow \<Rightarrow> thrown \<Rightarrow> world \<Rightarrow> world" where
  "recorded row err w =
     w\<lparr>failed_images := upsert_failure (row_id row) (parseInt (row_index row)) (row_url row)
                           (message_of err) (clock w) (failed_images w),
       clock := Suc (clock w),
       logged := logged w @ [Error_Failed (row_id row) (row_url row) err]\<rparr>"

text \<open>The two alternatives of the specification for a row after a pass: \<open>images\<close> has an
  entry for its id with the row's index; \<open>failed_images\<close> has an entry for its id with at
  least one attempt.\<close>

definition has_image :: "world \<Rightarrow> CSVRow \<Rightarrow> bool" where
  "has_image w row =
     (case image_of w (row_id row) of
        None \<Rightarrow> False
      | Some d \<Rightarrow> img_index d = parseInt (row_index row))"

definition has_failure :: "world \<Rightarrow> CSVRow \<Rightarrow> bool" where
  "has_failure w row =
     (case failure_of w (row_id row) of
        None \<Rightarrow> False
      | Some d \<Rightarrow> 1 \<le> f_attempts d)"

text \<open>The image a row stores when its download succeeds and the host answers the same at
  every tick.\<close>

definition stored_image :: "env \<Rightarrow> CSVRow \<Rightarrow> image" where
  "stored_image e row =
     \<lparr>img_id = row_id row, img_index = parseInt (row_index row),
      img_thumbnail = (case fetch_resize e 0 (row_url row) of Inl _ \<Rightarrow> [] | Inr thumbnail \<Rightarrow> thumbnail)\<rparr>"

text \<open>A url whose download and resize give the same outcome at every tick.\<close>

definition steady_host :: "env \<Rightarrow> string \<Rightarrow> bool" where
  "steady_host e url \<longleftrightarrow> (\<forall>t. fetch_resize e t url = fetch_resize e 0 url)"

text \<open>The index \<open>images\<close> holds for an id.\<close>

definition index_of :: "world \<Rightarrow> string \<Rightarrow> number option" where
  "index_of w k = map_option img_index (image_of w k)"

section \<open>Worlds and environments for the examples\<close>

definition empty_world :: world where
  "empty_world =
     \<lparr>images = [], failed_images = [], connected = False, clock = 0, logged = [],
      exit_status = None\<rparr>"

text \<open>A platform that accepts the urls starting with \<open>https://\<close>, a store without faults,
  hosts that serve every url but those starting with \<open>https://down/\<close>, and the file of the
  specification's example.\<close>

definition example_env :: env where
  "example_env =
     \<lparr>URL_parses = (\<lambda>url. take 8 url = ''https://''),
      store_fault = (\<lambda>t. None),
      fetch_resize = (\<lambda>t url. if take 13 url = ''https://down/''
                                then Inl (Error ''Request failed with status code 404'')
                                else Inr (''thumbnail of '' @ url)),
      connect_fault = None,
      stat_size = Inr 64,
      file_data = Inr ''id,url,index\<newline>A,https://x/a.png,1\<newline>B,not-a-url,2'',
      disconnect_fault = None\<rparr>"

text \<open>Five valid rows; the host of the second one is down.\<close>

definition five_rows :: "CSVRow list" where
  "five_rows =
     [\<lparr>row_id = ''A'', row_index = ''1'', row_url = ''https://x/a.png''\<rparr>,
      \<lparr>row_id = ''B'', row_index = ''2'', row_url = ''https://down/b.png''\<rparr>,
      \<lparr>row_id = ''C'', row_index = ''3'', row_url = ''https://x/c.png''\<rparr>,
      \<lparr>row_id = ''D'', row_index = ''4'', row_url = ''https://x/d.png''\<rparr>,
      \<lparr>row_id = ''E'', row_index = ''5'', row_url = ''https://x/e.png''\<rparr>]"


definition row_A :: CSVRow where
  "row_A = \<lparr>row_id = ''A'', row_index = ''1'', row_url = ''https://x/a.png''\<rparr>"

definition row_B :: CSVRow where
  "row_B = \<lparr>row_id = ''B'', row_index = ''2'', row_url = ''https://down/b.png''\<rparr>"

text \<open>Hosts that are down answer 404 before tick 3 and time out from then on.\<close>

definition timeout_env :: env where
  "timeout_env =
     example_env\<lparr>fetch_resize :=
       (\<lambda>t url. if take 13 url = ''https://down/''
                 then Inl (Error (if t < 3 then ''Request failed with status code 404''
                                  else ''timeout of 5000ms exceeded''))
                 else Inr (''thumbnail of '' @ url))\<rparr>"

text \<open>Hosts that serve every url before tick 4 and none from then on.\<close>

definition fading_env :: env where
  "fading_env =
     example_env\<lparr>fetch_resize :=
       (\<lambda>t url. if t < 4 then Inr (''thumbnail of '' @ url)
                 else Inl (Error ''timeout of 5000ms exceeded''))\<rparr>"

text \<open>The store can be reached, but the data file cannot be read.\<close>

definition unreadable_env :: env where
  "unreadable_env = example_env\<lparr>file_data := Inl (Error ''ENOENT: no such file or directory'')\<rparr>"

text \<open>A world whose ledger holds one entry at three attempts and one at a single attempt.\<close>

definition ledger_world :: world where
  "ledger_world =
     \<lparr>images = [],
      failed_images =
        [\<lparr>f_id = ''B'', f_index = Some 2, f_url = ''https://down/b.png'',
          f_error = ''Failed to process thumbnail for ID B: Request failed with status code 404'',
          f_attempts = 3, f_lastAttempt = 14\<rparr>,
         \<lparr>f_id = ''F'', f_index = Some 6, f_url = ''https://x/f.png'',
          f_error = ''Failed to process thumbnail for ID F: timeout of 5000ms exceeded'',
          f_attempts = 1, f_lastAttempt = 17\<rparr>],
      connected = True, clock = 20, logged = [], exit_status = None\<rparr>"

text \<open>A second row with the id of \<open>row_A\<close>.\<close>

definition row_A7 :: CSVRow where
  "row_A7 = \<lparr>row_id = ''A'', row_index = ''7'', row_url = ''https://x/a7.png''\<rparr>"

section \<open>Properties\<close>

declare slices.simps [simp del]

declare natToString.simps [simp del]

subsection \<open>Chunking\<close>

lemma chunk_Nil: "chunk [] sz = []"
  by (simp add: chunk_def)

subsection \<open>The empty pass\<close>

text \<open>
  C10. On the empty row sequence \<open>processImages\<close> returns total 0, processed 0 and failed 0
  and hands the world back as it received it: the log has no new entry (no progress
  notification), the clock has not moved (no store operation and no fetch was issued),
  and both collections are untouched. This holds for every batch size.
\<close>

theorem processImages_empty:
  "processImages e bs [] w = (Inr \<lparr>total = 0, processed = 0, failed = 0\<rparr>, w)"
  by (simp add: processImages_def chunk_Nil enumerate_eq_zip io_bind_def io_return_def)

subsection \<open>Row Source\<close>

lemma takeWhile_nonempty_iff:
  "takeWhile P xs \<noteq> [] \<longleftrightarrow> (case xs of [] \<Rightarrow> False | y # _ \<Rightarrow> P y)"
  by (cases xs) auto


lemma parseInt_defined_iff: "parseInt x \<noteq> None \<longleftrightarrow> has_integer_prefix x"
proof -
  define S where "S = dropWhile isWhiteSpace x"
  have "parseInt x \<noteq> None \<longleftrightarrow>
        takeWhile isDigit (case S of [] \<Rightarrow> S | c # cs \<Rightarrow> if c = CHR ''+'' \<or> c = CHR ''-'' then cs else S) \<noteq> []"
    unfolding parseInt_def Let_def S_def by (simp split: list.splits)
  also have "\<dots> \<longleftrightarrow> (case S of [] \<Rightarrow> False
       | c # cs \<Rightarrow> if c = CHR ''+'' \<or> c = CHR ''-'' then (case cs of [] \<Rightarrow> False | d # _ \<Rightarrow> isDigit d)
                  else isDigit c)"
    unfolding takeWhile_nonempty_iff by (cases S) (auto split: list.splits)
  also have "\<dots> \<longleftrightarrow> has_integer_prefix x"
    by (simp add: has_integer_prefix_def S_def)
  finally show ?thesis .
qed

lemma has_integer_prefix_nonempty: "has_integer_prefix x \<Longrightarrow> x \<noteq> []"
  by (auto simp: has_integer_prefix_def)

lemma validateRow_iff: "validateRow U r \<longleftrightarrow> prefix_retained U r"
  using has_integer_prefix_nonempty parseInt_defined_iff
  by (auto simp: validateRow_def prefix_retained_def validateUrl_def split: option.splits)

lemma isDigit_not_space: "isDigit c \<Longrightarrow> \<not> isWhiteSpace c"
  by (auto simp: isDigit_def isWhiteSpace_def)

lemma sign_not_space: "\<not> isWhiteSpace CHR ''+''" "\<not> isWhiteSpace CHR ''-''"
  by (simp_all add: isWhiteSpace_def)

lemma base10_integer_has_prefix: "is_base10_integer x \<Longrightarrow> has_integer_prefix x"
proof (cases x)
  case Nil
  assume "is_base10_integer x"
  with Nil show ?thesis by (simp add: is_base10_integer_def)
next
  case (Cons c cs)
  assume h: "is_base10_integer x"
  have "\<not> isWhiteSpace c"
    using h Cons sign_not_space isDigit_not_space
    by (auto simp: is_base10_integer_def split: if_splits)
  then have "dropWhile isWhiteSpace x = c # cs"
    using Cons by simp
  then show ?thesis
    using h Cons by (auto simp: is_base10_integer_def has_integer_prefix_def split: if_splits list.splits)
qed

lemma parseCSV_filter:
  "header_ok data \<Longrightarrow>
   parseCSV U data = Inr (map as_CSVRow (filter (prefix_retained U) (body_rows data)))"
  by (auto simp: header_ok_def parseCSV_def body_rows_def Let_def validateRow_iff
      split: list.splits cong: filter_cong)


text \<open>
  C2, as the claim states it, fails. With the header \<open>id,url,index\<close> the line
  \<open>A,https://x/a.png,12abc\<close> is retained although its index \<open>12abc\<close> is not a base-10
  integer: \<open>parseInt\<close> reads the digits at the front and ignores the rest.
\<close>

theorem readCSV_index_counterexample:
  "parseCSV (URL_parses example_env) ''id,url,index\<newline>A,https://x/a.png,12abc''
     = Inr [\<lparr>row_id = ''A'', row_index = ''12abc'', row_url = ''https://x/a.png''\<rparr>]
   \<and> \<not> spec_retained (URL_parses example_env)
         (mapRow [''id'', ''url'', ''index''] ''A,https://x/a.png,12abc'')"
proof -
  have "parseCSV (URL_parses example_env) ''id,url,index\<newline>A,https://x/a.png,12abc''
     = Inr [\<lparr>row_id = ''A'', row_index = ''12abc'', row_url = ''https://x/a.png''\<rparr>]"
    by code_simp
  moreover have "\<not> spec_retained (URL_parses example_env)
         (mapRow [''id'', ''url'', ''index''] ''A,https://x/a.png,12abc'')"
    by code_simp
  ultimately show ?thesis by simp
qed

text \<open>
  C2, amended. When the file can be read and its first non-blank line names the columns
  id, url and index, \<open>readCSV\<close> returns exactly the body lines whose id is non-empty, whose
  url is non-empty and parses, and whose index begins, after optional white space and
  one optional sign, with a decimal digit; what follows the digits is ignored. Every
  other line is dropped without an error and without a log entry (the world comes back
  unchanged). A line that meets the rule as the specification words it, with an index
  that is a base-10 integer, meets this rule too.
\<close>

theorem readCSV_retains_prefix_rows:
  assumes "file_data e = Inr data" and "header_ok data"
  shows "readCSV e w =
           (Inr (map as_CSVRow (filter (prefix_retained (URL_parses e)) (body_rows data))), w)
         \<and> filter (spec_retained (URL_parses e)) (body_rows data)
             = filter (spec_retained (URL_parses e))
                 (filter (prefix_retained (URL_parses e)) (body_rows data))"
proof -
  have "readCSV e w =
          (Inr (map as_CSVRow (filter (prefix_retained (URL_parses e)) (body_rows data))), w)"
    using assms
    by (simp add: readCSV_def io_catch_def io_bind_def fs_readFile_def parseCSV_filter
        io_return_def)
  moreover have "spec_retained (URL_parses e) r \<Longrightarrow> prefix_retained (URL_parses e) r" for r
    by (auto simp: spec_retained_def prefix_retained_def base10_integer_has_prefix
        split: option.splits)
  then have "filter (spec_retained (URL_parses e)) (body_rows data)
             = filter (spec_retained (URL_parses e))
                 (filter (prefix_retained (URL_parses e)) (body_rows data))"
    by (auto intro: filter_cong)
  ultimately show ?thesis by simp
qed

theorem readCSV_retains_prefix_rows_witness:
  "readCSV example_env empty_world
     = (Inr [\<lparr>row_id = ''A'', row_index = ''1'', row_url = ''https://x/a.png''\<rparr>], empty_world)"
proof -
  have f: "file_data example_env = Inr ''id,url,index\<newline>A,https://x/a.png,1\<newline>B,not-a-url,2''"
    by (simp add: example_env_def)
  have h: "header_ok ''id,url,index\<newline>A,https://x/a.png,1\<newline>B,not-a-url,2''"
    by code_simp
  have r: "map as_CSVRow (filter (prefix_retained (URL_parses example_env))
             (body_rows ''id,url,index\<newline>A,https://x/a.png,1\<newline>B,not-a-url,2''))
           = [\<lparr>row_id = ''A'', row_index = ''1'', row_url = ''https://x/a.png''\<rparr>]"
    by code_simp
  show ?thesis
    using readCSV_retains_prefix_rows [OF f h, of empty_world] by (simp add: r)
qed

subsection \<open>The io combinators\<close>

lemma io_bind_Inr: "m w = (Inr x, w') \<Longrightarrow> io_bind m f w = f x w'"
  by (simp add: io_bind_def)

lemma io_bind_Inl: "m w = (Inl err, w') \<Longrightarrow> io_bind m f w = (Inl err, w')"
  by (simp add: io_bind_def)

lemma io_catch_Inr: "m w = (Inr x, w') \<Longrightarrow> io_catch m h w = (Inr x, w')"
  by (simp add: io_catch_def)

lemma io_catch_Inl: "m w = (Inl err, w') \<Longrightarrow> io_catch m h w = h err w'"
  by (simp add: io_catch_def)

lemma store_equal_refl: "store_equal w w"
  by (simp add: store_equal_def)

lemma respects_return: "respects_store (io_return x)"
  by (simp add: respects_store_def io_return_def)

lemma respects_throw: "respects_store (io_throw x)"
  by (simp add: respects_store_def io_throw_def)

lemma respects_logger: "respects_store (logger x)"
  by (simp add: respects_store_def logger_def store_equal_def)

lemma respects_storeD:
  assumes "respects_store m" and "store_equal w v" and "m w = (r, w')" and "m v = (s, v')"
  shows "r = s" and "store_equal w' v'"
proof -
  from assms(1,2) have "fst (m w) = fst (m v) \<and> store_equal (snd (m w)) (snd (m v))"
    unfolding respects_store_def by blast
  with assms(3,4) show "r = s" and "store_equal w' v'" by simp_all
qed

lemma respects_bind:
  assumes "respects_store m" and "\<And>x. respects_store (f x)"
  shows "respects_store (io_bind m f)"
  unfolding respects_store_def
proof (intro allI impI)
  fix w v assume wv: "store_equal w v"
  obtain r w' where mw: "m w = (r, w')" by (cases "m w")
  obtain s v' where mv: "m v = (s, v')" by (cases "m v")
  from respects_storeD [OF assms(1) wv mw mv] have rs: "r = s" and eq: "store_equal w' v'"
    by simp_all
  show "fst (io_bind m f w) = fst (io_bind m f v) \<and>
        store_equal (snd (io_bind m f w)) (snd (io_bind m f v))"
  proof (cases r)
    case (Inl err)
    with mw mv rs eq show ?thesis by (auto simp: io_bind_def)
  next
    case (Inr x)
    from assms(2) [of x] eq have
      "fst (f x w') = fst (f x v') \<and> store_equal (snd (f x w')) (snd (f x v'))"
      by (simp add: respects_store_def)
    with Inr mw mv rs show ?thesis by (auto simp: io_bind_def)
  qed
qed

lemma respects_catch:
  assumes "respects_store m" and "\<And>x. respects_store (h x)"
  shows "respects_store (io_catch m h)"
  unfolding respects_store_def
proof (intro allI impI)
  fix w v assume wv: "store_equal w v"
  obtain r w' where mw: "m w = (r, w')" by (cases "m w")
  obtain s v' where mv: "m v = (s, v')" by (cases "m v")
  from respects_storeD [OF assms(1) wv mw mv] have rs: "r = s" and eq: "store_equal w' v'"
    by simp_all
  show "fst (io_catch m h w) = fst (io_catch m h v) \<and>
        store_equal (snd (io_catch m h w)) (snd (io_catch m h v))"
  proof (cases r)
    case (Inr x)
    with mw mv rs eq show ?thesis by (auto simp: io_catch_def)
  next
    case (Inl err)
    from assms(2) [of err] eq have
      "fst (h err w') = fst (h err v') \<and> store_equal (snd (h err w')) (snd (h err v'))"
      by (simp add: respects_store_def)
    with Inl mw mv rs show ?thesis by (auto simp: io_catch_def)
  qed
qed

lemma respects_findOne: "respects_store (ImageModel_findOne e k)"
  by (auto simp: respects_store_def ImageModel_findOne_def store_op_def store_equal_def tick_def
      split: option.splits)

lemma respects_updateOne: "respects_store (ImageModel_updateOne e k i t)"
  by (auto simp: respects_store_def ImageModel_updateOne_def store_op_def store_equal_def tick_def
      split: option.splits)

lemma respects_create: "respects_store (ImageModel_create e d)"
  by (auto simp: respects_store_def ImageModel_create_def store_op_def store_equal_def tick_def
      split: option.splits)

lemma respects_deleteOne: "respects_store (FailedImageModel_deleteOne e k)"
  by (auto simp: respects_store_def FailedImageModel_deleteOne_def store_op_def store_equal_def
      tick_def split: option.splits)

lemma respects_findOneAndUpdate:
  "respects_store (\<lambda>w. FailedImageModel_findOneAndUpdate e k i u m (clock w) w)"
  by (auto simp: respects_store_def FailedImageModel_findOneAndUpdate_def store_op_def
      store_equal_def tick_def split: option.splits)

lemma respects_processThumbnail: "respects_store (processThumbnail e k u)"
  by (auto simp: respects_store_def processThumbnail_def store_equal_def tick_def
      split: sum.splits)

lemma respects_try_row: "respects_store (try_row e row)"
  unfolding try_row_def
  by (intro respects_bind respects_findOne respects_processThumbnail respects_deleteOne)
     (auto intro!: respects_bind respects_updateOne respects_create respects_logger
        split: option.splits)

lemma respects_catch_row: "respects_store (catch_row e row err)"
  unfolding catch_row_def Let_def
  by (intro respects_bind respects_findOneAndUpdate respects_logger)

lemma respects_row_pass: "respects_store (row_pass e row)"
  unfolding row_pass_def
  by (intro respects_catch respects_bind respects_try_row respects_catch_row respects_return)

lemma respects_rows_pass: "respects_store (rows_pass e rows)"
  by (induction rows) (auto intro!: respects_bind respects_return respects_row_pass)

subsection \<open>The chunks of \<open>lodash.chunk\<close>\<close>

lemma concat_slices: "0 < n \<Longrightarrow> concat (slices xs n) = xs"
proof (induction xs n rule: slices.induct)
  case (1 array n)
  show ?case
  proof (cases "array = []")
    case True
    then show ?thesis by (subst slices.simps) simp
  next
    case False
    with 1 have "concat (slices (drop n array) n) = drop n array" by simp
    with False 1(2) show ?thesis
      by (subst slices.simps) simp
  qed
qed




lemma chunk_slices: "1 \<le> toInteger bs \<Longrightarrow> xs \<noteq> [] \<Longrightarrow> chunk xs bs = slices xs (nat (toInteger bs))"
  by (simp add: chunk_def Let_def max_def)

lemma concat_chunk: "1 \<le> toInteger bs \<Longrightarrow> concat (chunk xs bs) = xs"
  by (cases "xs = []") (simp_all add: chunk_Nil chunk_slices concat_slices)



lemma chunk_nonpositive: "toInteger bs < 1 \<Longrightarrow> chunk xs bs = []"
  by (simp add: chunk_def Let_def max_def)

subsection \<open>The loop of \<open>processChunk\<close> and the outcomes of its rows\<close>

lemma processChunk_step:
  "io_catch (io_bind (try_row e row) (\<lambda>_. io_return (n + 1)))
            (\<lambda>error. io_bind (catch_row e row error) (\<lambda>_. io_return n)) w
   = (case row_pass e row w of
        (Inl err, w') \<Rightarrow> (Inl err, w')
      | (Inr ok, w') \<Rightarrow> (Inr (if ok then n + 1 else n), w'))"
  by (auto simp: row_pass_def io_catch_def io_bind_def io_return_def split: prod.splits sum.splits)

lemma processChunk_loop_rows_pass:
  "processChunk_loop e rows n w
   = (case rows_pass e rows w of
        (Inl err, w') \<Rightarrow> (Inl err, w')
      | (Inr oks, w') \<Rightarrow> (Inr (n + int (count_list oks True)), w'))"
proof (induction rows arbitrary: n w)
  case Nil
  show ?case by (simp add: io_return_def)
next
  case (Cons row rows)
  obtain r w1 where rp: "row_pass e row w = (r, w1)" by (cases "row_pass e row w")
  show ?case
  proof (cases r)
    case (Inl err)
    with rp show ?thesis
      by (simp add: io_bind_def processChunk_step)
  next
    case (Inr ok)
    obtain r2 w2 where rs: "rows_pass e rows w1 = (r2, w2)" by (cases "rows_pass e rows w1")
    from Inr rp rs show ?thesis
      by (cases r2) (simp_all add: io_bind_def processChunk_step Cons.IH io_return_def)
  qed
qed

lemma rows_pass_length: "rows_pass e rows w = (Inr oks, w') \<Longrightarrow> length oks = length rows"
proof (induction rows arbitrary: oks w)
  case Nil
  then show ?case by (simp add: io_return_def)
next
  case (Cons row rows)
  then show ?case
    by (auto simp: io_bind_def io_return_def split: prod.splits sum.splits)
qed

lemma rows_pass_append:
  "rows_pass e (xs @ ys) w
   = (case rows_pass e xs w of
        (Inl err, w') \<Rightarrow> (Inl err, w')
      | (Inr oks, w') \<Rightarrow>
          (case rows_pass e ys w' of
             (Inl err, w'') \<Rightarrow> (Inl err, w'')
           | (Inr oks', w'') \<Rightarrow> (Inr (oks @ oks'), w'')))"
proof (induction xs arbitrary: w)
  case Nil
  show ?case by (simp add: io_return_def split: prod.splits sum.splits)
next
  case (Cons x xs)
  show ?case
    by (simp add: io_bind_def io_return_def Cons.IH split: prod.splits sum.splits)
qed

lemma count_list_bool: "count_list oks True + count_list oks False = length oks"
  by (induction oks) auto

lemma count_list_le_length: "count_list xs x \<le> length xs"
  by (induction xs) auto

lemma processChunk_rows_pass:
  "processChunk e rows w
   = (case rows_pass e rows w of
        (Inl err, w') \<Rightarrow> (Inl err, w')
      | (Inr oks, w') \<Rightarrow> (Inr (int (count_list oks True)), w'))"
  by (simp add: processChunk_def processChunk_loop_rows_pass split: prod.splits sum.splits)

text \<open>The loop over the chunks against the rows taken in one sequence: the same outcomes
  and the same store, the worlds differ by the progress notifications only.\<close>

lemma processImages_loop_rows_pass:
  assumes "store_equal w v"
  shows "case rows_pass e (concat (map snd ichunks)) v of
           (Inl err, v') \<Rightarrow>
             (\<exists>w'. processImages_loop e nc nr ichunks (p, f) w = (Inl err, w') \<and> store_equal w' v')
         | (Inr oks, v') \<Rightarrow>
             (\<exists>w'. processImages_loop e nc nr ichunks (p, f) w
                     = (Inr (p + int (count_list oks True), f + int (count_list oks False)), w')
                   \<and> store_equal w' v')"
  using assms
proof (induction ichunks arbitrary: w v p f)
  case Nil
  then show ?case by (simp add: io_return_def)
next
  case (Cons ic ichunks)
  obtain index currentChunk where ic: "ic = (index, currentChunk)" by (cases ic)
  obtain r1 v1 where v1: "rows_pass e currentChunk v = (r1, v1)" by (cases "rows_pass e currentChunk v")
  obtain r1' w1 where w1: "rows_pass e currentChunk w = (r1', w1)" by (cases "rows_pass e currentChunk w")
  from respects_storeD [OF respects_rows_pass Cons.prems w1 v1]
  have r1: "r1' = r1" and eq1: "store_equal w1 v1" by simp_all
  show ?case
  proof (cases r1)
    case (Inl err)
    with ic v1 w1 r1 eq1 show ?thesis
      by (simp add: rows_pass_append io_bind_def processChunk_rows_pass)
  next
    case (Inr oks1)
    define p' where "p' = p + int (count_list oks1 True)"
    define f' where "f' = f + (int (length currentChunk) - int (count_list oks1 True))"
    define w2 where "w2 = w1\<lparr>logged := logged w1 @ [Info_Batch (index + 1) nc p' nr f']\<rparr>"
    have len: "length oks1 = length currentChunk"
      using v1 Inr by (simp add: rows_pass_length)
    have f'_eq: "f' = f + int (count_list oks1 False)"
      using count_list_bool [of oks1] len by (simp add: f'_def)
    have eq2: "store_equal w2 v1"
      using eq1 by (simp add: w2_def store_equal_def)
    have step: "processImages_loop e nc nr (ic # ichunks) (p, f) w
                = processImages_loop e nc nr ichunks (p', f') w2"
      using ic w1 r1 Inr
      by (simp add: io_bind_def processChunk_rows_pass Let_def logger_def p'_def f'_def w2_def)
    obtain r2 v2 where v2: "rows_pass e (concat (map snd ichunks)) v1 = (r2, v2)"
      by (cases "rows_pass e (concat (map snd ichunks)) v1")
    from Cons.IH [OF eq2, of p' f'] v2
    have ih: "case r2 of
                Inl err \<Rightarrow> (\<exists>w'. processImages_loop e nc nr ichunks (p', f') w2 = (Inl err, w') \<and> store_equal w' v2)
              | Inr oks \<Rightarrow> (\<exists>w'. processImages_loop e nc nr ichunks (p', f') w2
                     = (Inr (p' + int (count_list oks True), f' + int (count_list oks False)), w')
                   \<and> store_equal w' v2)"
      by simp
    show ?thesis
    proof (cases r2)
      case (Inl err)
      with ih ic v1 v2 Inr step show ?thesis
        by (simp add: rows_pass_append)
    next
      case (Inr oks2)
      with ih ic v1 v2 \<open>r1 = Inr oks1\<close> step show ?thesis
        by (simp add: rows_pass_append p'_def f'_eq add.assoc)
    qed
  qed
qed

subsection \<open>The result of a pass\<close>

lemma processImages_rows_pass:
  assumes "1 \<le> toInteger bs"
  shows "case rows_pass e rows w of
           (Inl err, v') \<Rightarrow> (\<exists>w'. processImages e bs rows w = (Inl err, w') \<and> store_equal w' v')
         | (Inr oks, v') \<Rightarrow>
             (\<exists>w'. processImages e bs rows w
                     = (Inr \<lparr>total = int (length rows), processed = int (count_list oks True),
                             failed = int (count_list oks False)\<rparr>, w')
                   \<and> store_equal w' v')"
proof -
  define chunks where "chunks = chunk rows bs"
  have rows: "concat (map snd (enumerate 0 chunks)) = rows"
    using assms by (simp add: chunks_def concat_chunk)
  from processImages_loop_rows_pass [where e = e and ichunks = "enumerate 0 chunks" and w = w
        and v = w and nc = "length chunks" and nr = "length rows" and p = 0 and f = 0,
      OF store_equal_refl]
  show ?thesis
    unfolding rows processImages_def Let_def chunks_def [symmetric]
    by (auto simp: io_bind_def io_return_def split: prod.splits sum.splits)
qed

text \<open>
  C1, as the claim states it, fails. With \<open>DEFAULT_BATCH_SIZE=0\<close> the constructor sets the
  batch size 0, \<open>chunk\<close> returns no chunk, and \<open>processImages\<close> on one row returns total 1,
  processed 0 and failed 0 without touching the row: total is not processed + failed.
\<close>

theorem processImages_counts_counterexample:
  "processImages example_env (batchSize (default_config None (Some ''0'')))
     [\<lparr>row_id = ''A'', row_index = ''1'', row_url = ''https://x/a.png''\<rparr>] empty_world
   = (Inr \<lparr>total = 1, processed = 0, failed = 0\<rparr>, empty_world)"
  by code_simp

text \<open>
  C1, amended. For a batch size of at least 1, the result that \<open>processImages\<close> returns has
  total equal to the number of rows of this pass, whatever earlier passes did, and
  total = processed + failed; processed is the number of rows whose iteration ran its
  \<open>try\<close> block to the end and failed is the number of the others, the rows being taken in
  order from the world the pass started in.
\<close>

theorem processImages_counts:
  assumes "1 \<le> toInteger bs" and "processImages e bs rows w = (Inr r, w')"
  shows "total r = int (length rows) \<and> total r = processed r + failed r \<and>
         (\<exists>oks v. rows_pass e rows w = (Inr oks, v) \<and> store_equal w' v \<and>
            length oks = length rows \<and>
            processed r = int (count_list oks True) \<and> failed r = int (count_list oks False))"
proof -
  obtain res v where v: "rows_pass e rows w = (res, v)" by (cases "rows_pass e rows w")
  from processImages_rows_pass [OF assms(1), of e rows w] v assms(2)
  obtain oks where res: "res = Inr oks"
    and r: "r = \<lparr>total = int (length rows), processed = int (count_list oks True),
                failed = int (count_list oks False)\<rparr>"
    and eq: "store_equal w' v"
    by (cases res) auto
  from v res have len: "length oks = length rows" by (simp add: rows_pass_length)
  with count_list_bool [of oks] r have "total r = processed r + failed r" by simp
  with v res r eq len show ?thesis by simp
qed

theorem processImages_counts_witness:
  "1 \<le> toInteger (Some 2) \<and>
   fst (processImages example_env (Some 2) five_rows empty_world)
     = Inr \<lparr>total = 5, processed = 4, failed = 1\<rparr>"
proof -
  have f: "fst (processImages example_env (Some 2) five_rows empty_world)
             = Inr \<lparr>total = 5, processed = 4, failed = 1\<rparr>"
    by code_simp
  then have h: "processImages example_env (Some 2) five_rows empty_world
             = (Inr \<lparr>total = 5, processed = 4, failed = 1\<rparr>,
                snd (processImages example_env (Some 2) five_rows empty_world))"
    by (simp add: prod_eq_iff)
  have b: "1 \<le> toInteger (Some 2)" by (simp add: toInteger_def)
  from processImages_counts [OF b h] f b show ?thesis by simp
qed

subsection \<open>What a pass logs\<close>





















subsection \<open>Progress notifications\<close>







subsection \<open>Looking up after an update of a collection\<close>

lemma find_update_first_same:
  assumes "\<And>x. P x \<Longrightarrow> P (f x)"
  shows "find P (update_first P f xs) = map_option f (find P xs)"
  using assms by (induction xs) auto

lemma find_update_first_other:
  assumes "\<And>x. P x \<Longrightarrow> \<not> Q (f x)" and "\<And>x. P x \<Longrightarrow> \<not> Q x"
  shows "find Q (update_first P f xs) = find Q xs"
  using assms by (induction xs) auto

lemma find_append:
  "find P (xs @ ys) = (case find P xs of None \<Rightarrow> find P ys | Some x \<Rightarrow> Some x)"
  by (induction xs) auto

lemma find_delete_first_other:
  assumes "\<And>x. P x \<Longrightarrow> \<not> Q x"
  shows "find Q (delete_first P xs) = find Q xs"
  using assms by (induction xs) auto

lemma find_None_iff_list_ex: "find P xs = None \<longleftrightarrow> \<not> list_ex P xs"
  by (induction xs) auto

lemma find_key_None: "find (\<lambda>d. key d = k) xs = None \<longleftrightarrow> k \<notin> key ` set xs"
  by (induction xs) auto

lemma find_delete_first_same:
  assumes "distinct (map key xs)"
  shows "find (\<lambda>d. key d = k) (delete_first (\<lambda>d. key d = k) xs) = None"
  using assms by (induction xs) (auto simp: find_key_None)

lemma set_delete_first: "set (delete_first P xs) \<subseteq> set xs"
  by (induction xs) auto

lemma keys_delete_first: "set (map key (delete_first P xs)) \<subseteq> set (map key xs)"
  using set_delete_first [of P xs] by auto

lemma distinct_delete_first:
  "distinct (map key xs) \<Longrightarrow> distinct (map key (delete_first P xs))"
proof (induction xs)
  case Nil
  show ?case by simp
next
  case (Cons x xs)
  then show ?case using keys_delete_first [of key P xs] by auto
qed

lemma keys_update_first:
  assumes "\<And>x. P x \<Longrightarrow> key (f x) = key x"
  shows "map key (update_first P f xs) = map key xs"
  using assms by (induction xs) auto

subsection \<open>The failure ledger\<close>

lemma failure_after_upsert_same:
  "find (\<lambda>d. f_id d = k) (upsert_failure k idx url msg now docs)
   = Some \<lparr>f_id = k, f_index = idx, f_url = url, f_error = msg,
           f_attempts = (case find (\<lambda>d. f_id d = k) docs of None \<Rightarrow> 1 | Some d \<Rightarrow> f_attempts d + 1),
           f_lastAttempt = now\<rparr>"
proof (cases "find (\<lambda>d. f_id d = k) docs")
  case None
  then have "\<not> list_ex (\<lambda>d. f_id d = k) docs"
    using find_None_iff_list_ex [of "\<lambda>d. f_id d = k" docs] by simp
  with None show ?thesis
    by (simp add: upsert_failure_def find_append)
next
  case (Some d)
  then have "list_ex (\<lambda>d. f_id d = k) docs"
    using find_None_iff_list_ex [of "\<lambda>d. f_id d = k" docs] by simp
  with Some show ?thesis
    by (simp add: upsert_failure_def find_update_first_same)
qed

lemma failure_after_upsert_other:
  assumes "k' \<noteq> k"
  shows "find (\<lambda>d. f_id d = k') (upsert_failure k idx url msg now docs)
         = find (\<lambda>d. f_id d = k') docs"
proof (cases "list_ex (\<lambda>d. f_id d = k) docs")
  case True
  have "find (\<lambda>d. f_id d = k')
          (update_first (\<lambda>d. f_id d = k)
             (\<lambda>d. d\<lparr>f_id := k, f_index := idx, f_url := url, f_error := msg,
                     f_attempts := f_attempts d + 1, f_lastAttempt := now\<rparr>) docs)
        = find (\<lambda>d. f_id d = k') docs"
    by (rule find_update_first_other) (use assms in auto)
  with True show ?thesis by (simp add: upsert_failure_def)
next
  case False
  with assms show ?thesis
    by (simp add: upsert_failure_def find_append split: option.splits)
qed

lemma distinct_upsert_failure:
  assumes "distinct (map f_id docs)"
  shows "distinct (map f_id (upsert_failure k idx url msg now docs))"
proof (cases "list_ex (\<lambda>d. f_id d = k) docs")
  case True
  have "map f_id
          (update_first (\<lambda>d. f_id d = k)
             (\<lambda>d. d\<lparr>f_id := k, f_index := idx, f_url := url, f_error := msg,
                     f_attempts := f_attempts d + 1, f_lastAttempt := now\<rparr>) docs)
        = map f_id docs"
    by (rule keys_update_first) simp
  with True assms show ?thesis by (simp add: upsert_failure_def)
next
  case False
  then have "k \<notin> f_id ` set docs"
    using find_None_iff_list_ex [of "\<lambda>d. f_id d = k" docs] find_key_None [of f_id k docs] by simp
  with False assms show ?thesis by (simp add: upsert_failure_def)
qed

subsection \<open>One row\<close>

lemma catch_row_ok:
  assumes "store_fault e (clock w) = None"
  shows "catch_row e row err w =
           (Inr (), w\<lparr>failed_images := upsert_failure (row_id row) (parseInt (row_index row))
                                         (row_url row) (message_of err) (clock w) (failed_images w),
                       clock := Suc (clock w),
                       logged := logged w @ [Error_Failed (row_id row) (row_url row) err]\<rparr>)"
  using assms
  by (simp add: catch_row_def Let_def io_bind_def FailedImageModel_findOneAndUpdate_def
      store_op_def tick_def logger_def)

lemma catch_row_fault:
  assumes "store_fault e (clock w) = Some err'"
  shows "catch_row e row err w = (Inl err', tick w)"
  using assms
  by (simp add: catch_row_def Let_def io_bind_def FailedImageModel_findOneAndUpdate_def
      store_op_def)

lemma row_pass_cases:
  "row_pass e row w =
     (case try_row e row w of
        (Inr u, w1) \<Rightarrow> (Inr True, w1)
      | (Inl err, w1) \<Rightarrow>
          (case store_fault e (clock w1) of
             None \<Rightarrow>
               (Inr False,
                w1\<lparr>failed_images := upsert_failure (row_id row) (parseInt (row_index row))
                                       (row_url row) (message_of err) (clock w1) (failed_images w1),
                    clock := Suc (clock w1),
                    logged := logged w1 @ [Error_Failed (row_id row) (row_url row) err]\<rparr>)
           | Some err' \<Rightarrow> (Inl err', tick w1)))"
  by (auto simp: row_pass_def io_catch_def io_bind_def io_return_def catch_row_ok catch_row_fault
      split: prod.splits sum.splits option.splits)



text \<open>What a failed \<open>try\<close> block leaves behind: the ledger is as before and no other id's
  image has changed.\<close>

lemma try_row_Inl:
  assumes "try_row e row w = (Inl err, w1)"
  shows "failed_images w1 = failed_images w \<and> clock w < clock w1 \<and>
         (\<forall>k. k \<noteq> row_id row \<longrightarrow> image_of w1 k = image_of w k)"
proof -
  have upd: "find (\<lambda>d. img_id d = k)
               (update_first (\<lambda>d. img_id d = row_id row)
                  (\<lambda>d. d\<lparr>img_index := i, img_thumbnail := t\<rparr>) xs)
             = find (\<lambda>d. img_id d = k) xs" if "k \<noteq> row_id row" for k i t xs
    by (rule find_update_first_other) (use that in auto)
  from assms show ?thesis
    by (auto simp: try_row_def io_bind_def ImageModel_findOne_def store_op_def
        processThumbnail_def ImageModel_updateOne_def ImageModel_create_def
        FailedImageModel_deleteOne_def logger_def tick_def image_of_def upd find_append
        split: option.splits sum.splits prod.splits if_splits)
qed

text \<open>The world a completed \<open>try\<close> block leaves behind.\<close>

lemma try_row_Inr_world:
  assumes "try_row e row w = (Inr u, w1)"
  shows "\<exists>thumbnail. fetch_resize e (Suc (clock w)) (row_url row) = Inr thumbnail \<and>
           w1 = w\<lparr>images :=
                     (case find (\<lambda>d. img_id d = row_id row) (images w) of
                        Some existingImage \<Rightarrow>
                          update_first (\<lambda>d. img_id d = row_id row)
                            (\<lambda>d. d\<lparr>img_index := parseInt (row_index row),
                                    img_thumbnail := thumbnail\<rparr>) (images w)
                      | None \<Rightarrow>
                          images w @ [\<lparr>img_id = row_id row, img_index = parseInt (row_index row),
                                       img_thumbnail = thumbnail\<rparr>]),
                   logged := logged w @
                     [case find (\<lambda>d. img_id d = row_id row) (images w) of
                        Some existingImage \<Rightarrow> Info_Updated (row_id row)
                      | None \<Rightarrow> Info_Created (row_id row)],
                   failed_images := delete_first (\<lambda>d. f_id d = row_id row) (failed_images w),
                   clock := Suc (Suc (Suc (Suc (clock w))))\<rparr>"
  using assms
  by (auto simp: try_row_def io_bind_def ImageModel_findOne_def store_op_def
      processThumbnail_def ImageModel_updateOne_def ImageModel_create_def
      FailedImageModel_deleteOne_def logger_def tick_def
      split: option.splits sum.splits prod.splits if_splits)

lemma find_key: "find (\<lambda>d. key d = k) xs = Some d \<Longrightarrow> key d = k"
  by (induction xs) (auto split: if_splits)

lemma try_row_Inr:
  assumes "try_row e row w = (Inr u, w1)"
  shows "\<exists>thumbnail. fetch_resize e (Suc (clock w)) (row_url row) = Inr thumbnail \<and>
           image_of w1 (row_id row)
             = Some \<lparr>img_id = row_id row, img_index = parseInt (row_index row),
                     img_thumbnail = thumbnail\<rparr> \<and>
           (\<forall>k. k \<noteq> row_id row \<longrightarrow> image_of w1 k = image_of w k) \<and>
           failed_images w1 = delete_first (\<lambda>d. f_id d = row_id row) (failed_images w) \<and>
           clock w < clock w1"
proof -
  from try_row_Inr_world [OF assms] obtain thumbnail where
    f: "fetch_resize e (Suc (clock w)) (row_url row) = Inr thumbnail" and
    i: "images w1 =
          (case find (\<lambda>d. img_id d = row_id row) (images w) of
             Some existingImage \<Rightarrow>
               update_first (\<lambda>d. img_id d = row_id row)
                 (\<lambda>d. d\<lparr>img_index := parseInt (row_index row), img_thumbnail := thumbnail\<rparr>)
                 (images w)
           | None \<Rightarrow>
               images w @ [\<lparr>img_id = row_id row, img_index = parseInt (row_index row),
                            img_thumbnail = thumbnail\<rparr>])" and
    l: "failed_images w1 = delete_first (\<lambda>d. f_id d = row_id row) (failed_images w)" and
    c: "clock w1 = Suc (Suc (Suc (Suc (clock w))))"
    by auto
  have upd: "find (\<lambda>d. img_id d = k)
               (update_first (\<lambda>d. img_id d = row_id row)
                  (\<lambda>d. d\<lparr>img_index := n, img_thumbnail := t\<rparr>) xs)
             = find (\<lambda>d. img_id d = k) xs" if "k \<noteq> row_id row" for k n t xs
    by (rule find_update_first_other) (use that in auto)
  have same: "find (\<lambda>d. img_id d = row_id row)
               (update_first (\<lambda>d. img_id d = row_id row)
                  (\<lambda>d. d\<lparr>img_index := n, img_thumbnail := t\<rparr>) xs)
             = map_option (\<lambda>d. d\<lparr>img_index := n, img_thumbnail := t\<rparr>)
                 (find (\<lambda>d. img_id d = row_id row) xs)" for n t xs
    by (rule find_update_first_same) simp
  have own: "image_of w1 (row_id row)
             = Some \<lparr>img_id = row_id row, img_index = parseInt (row_index row),
                     img_thumbnail = thumbnail\<rparr>"
  proof (cases "find (\<lambda>d. img_id d = row_id row) (images w)")
    case None
    with i show ?thesis by (simp add: image_of_def find_append)
  next
    case (Some d)
    from find_key [OF Some] have "img_id d = row_id row" .
    with Some i show ?thesis by (simp add: image_of_def same)
  qed
  have others: "\<forall>k. k \<noteq> row_id row \<longrightarrow> image_of w1 k = image_of w k"
    using i by (auto simp: image_of_def upd find_append split: option.splits)
  from f own others l c show ?thesis by auto
qed

subsection \<open>Which failures leave the orchestrator\<close>











subsection \<open>Failures accumulate in the ledger\<close>

lemma row_pass_False:
  assumes "row_pass e row w = (Inr False, w')"
  shows "\<exists>err w1. try_row e row w = (Inl err, w1) \<and> store_fault e (clock w1) = None \<and>
           w' = recorded row err w1"
  using assms
  by (auto simp: row_pass_cases recorded_def split: prod.splits sum.splits option.splits)

lemma row_pass_True:
  assumes "row_pass e row w = (Inr True, w')"
  shows "\<exists>u. try_row e row w = (Inr u, w')"
  using assms
  by (auto simp: row_pass_cases split: prod.splits sum.splits option.splits)

lemma failure_recorded:
  assumes "row_pass e row w = (Inr False, w')"
  shows "\<exists>err w1. try_row e row w = (Inl err, w1) \<and>
           failure_of w' (row_id row)
             = Some \<lparr>f_id = row_id row, f_index = parseInt (row_index row), f_url = row_url row,
                     f_error = message_of err,
                     f_attempts = (case failure_of w (row_id row) of
                                     None \<Rightarrow> 1 | Some d \<Rightarrow> f_attempts d + 1),
                     f_lastAttempt = clock w1\<rparr>"
proof -
  from row_pass_False [OF assms] obtain err w1 where
    t: "try_row e row w = (Inl err, w1)" and w': "w' = recorded row err w1"
    by blast
  from try_row_Inl [OF t] have l: "failed_images w1 = failed_images w" by simp
  have "failure_of w' (row_id row)
        = Some \<lparr>f_id = row_id row, f_index = parseInt (row_index row), f_url = row_url row,
                f_error = message_of err,
                f_attempts = (case failure_of w (row_id row) of
                                None \<Rightarrow> 1 | Some d \<Rightarrow> f_attempts d + 1),
                f_lastAttempt = clock w1\<rparr>"
    by (simp add: w' recorded_def failure_of_def failure_after_upsert_same l)
  with t show ?thesis by blast
qed

lemma failure_recorded_others:
  assumes "row_pass e row w = (Inr False, w')" and "k \<noteq> row_id row"
  shows "failure_of w' k = failure_of w k"
proof -
  from row_pass_False [OF assms(1)] obtain err w1 where
    t: "try_row e row w = (Inl err, w1)" and w': "w' = recorded row err w1"
    by blast
  from try_row_Inl [OF t] have l: "failed_images w1 = failed_images w" by simp
  show ?thesis
    using assms(2) by (simp add: w' recorded_def failure_of_def failure_after_upsert_other l)
qed

text \<open>
  C5. When a row fails and the failure is written to the ledger, the ledger's entry for
  the row's id afterwards has the row's index and url, the message of this failure, the
  clock reading of this attempt, and an attempt count that is 1 if the id had no entry
  and one more than the entry's count otherwise; the entries of all other ids are as
  before. In particular a row with no entry that fails twice in succession ends with
  attempts 2 and with the error and the time of the second failure.
\<close>

theorem failure_ledger_upsert:
  assumes "row_pass e row w = (Inr False, w')"
  shows "(\<exists>err w1. try_row e row w = (Inl err, w1) \<and>
            failure_of w' (row_id row)
              = Some \<lparr>f_id = row_id row, f_index = parseInt (row_index row), f_url = row_url row,
                      f_error = message_of err,
                      f_attempts = (case failure_of w (row_id row) of
                                      None \<Rightarrow> 1 | Some d \<Rightarrow> f_attempts d + 1),
                      f_lastAttempt = clock w1\<rparr>) \<and>
         (\<forall>k. k \<noteq> row_id row \<longrightarrow> failure_of w' k = failure_of w k) \<and>
         (\<forall>w''. failure_of w (row_id row) = None \<and> row_pass e row w' = (Inr False, w'') \<longrightarrow>
            (\<exists>err2 w2. try_row e row w' = (Inl err2, w2) \<and>
               failure_of w'' (row_id row)
                 = Some \<lparr>f_id = row_id row, f_index = parseInt (row_index row),
                         f_url = row_url row, f_error = message_of err2, f_attempts = 2,
                         f_lastAttempt = clock w2\<rparr>))"
proof (intro conjI allI impI)
  show "\<exists>err w1. try_row e row w = (Inl err, w1) \<and>
            failure_of w' (row_id row)
              = Some \<lparr>f_id = row_id row, f_index = parseInt (row_index row), f_url = row_url row,
                      f_error = message_of err,
                      f_attempts = (case failure_of w (row_id row) of
                                      None \<Rightarrow> 1 | Some d \<Rightarrow> f_attempts d + 1),
                      f_lastAttempt = clock w1\<rparr>"
    using assms by (rule failure_recorded)
next
  fix k assume "k \<noteq> row_id row"
  with assms show "failure_of w' k = failure_of w k" by (rule failure_recorded_others)
next
  fix w''
  assume h: "failure_of w (row_id row) = None \<and> row_pass e row w' = (Inr False, w'')"
  from failure_recorded [OF assms] h obtain d where
    first: "failure_of w' (row_id row) = Some d" "f_attempts d = 1"
    by auto
  from h have "row_pass e row w' = (Inr False, w'')" by simp
  from failure_recorded [OF this] first
  show "\<exists>err2 w2. try_row e row w' = (Inl err2, w2) \<and>
               failure_of w'' (row_id row)
                 = Some \<lparr>f_id = row_id row, f_index = parseInt (row_index row),
                         f_url = row_url row, f_error = message_of err2, f_attempts = 2,
                         f_lastAttempt = clock w2\<rparr>"
    by auto
qed

theorem failure_ledger_upsert_witness:
  "failure_of (snd (row_pass timeout_env row_B (snd (row_pass timeout_env row_B empty_world))))
     ''B''
   = Some \<lparr>f_id = ''B'', f_index = Some 2, f_url = ''https://down/b.png'',
           f_error = ''Failed to process thumbnail for ID B: timeout of 5000ms exceeded'',
           f_attempts = 2, f_lastAttempt = 5\<rparr>"
proof -
  let ?w1 = "snd (row_pass timeout_env row_B empty_world)"
  let ?w2 = "snd (row_pass timeout_env row_B ?w1)"
  have a: "row_pass timeout_env row_B empty_world = (Inr False, ?w1)"
  proof -
    have "fst (row_pass timeout_env row_B empty_world) = Inr False" by code_simp
    then show ?thesis by (simp add: prod_eq_iff)
  qed
  have b: "row_pass timeout_env row_B ?w1 = (Inr False, ?w2)"
  proof -
    have "fst (row_pass timeout_env row_B ?w1) = Inr False" by code_simp
    then show ?thesis by (simp add: prod_eq_iff)
  qed
  have n: "failure_of empty_world (row_id row_B) = None" by code_simp
  have t: "try_row timeout_env row_B ?w1
           = (Inl (Error ''Failed to process thumbnail for ID B: timeout of 5000ms exceeded''),
              \<lparr>images = [],
               failed_images =
                 [\<lparr>f_id = ''B'', f_index = Some 2, f_url = ''https://down/b.png'',
                   f_error = ''Failed to process thumbnail for ID B: Request failed with status code 404'',
                   f_attempts = 1, f_lastAttempt = 2\<rparr>],
               connected = False, clock = 5,
               logged = [Error_Failed ''B'' ''https://down/b.png''
                  (Error ''Failed to process thumbnail for ID B: Request failed with status code 404'')],
               exit_status = None\<rparr>)"
    by code_simp
  have r: "row_id row_B = ''B'' \<and> parseInt (row_index row_B) = Some 2 \<and>
           row_url row_B = ''https://down/b.png''"
    by code_simp
  from failure_ledger_upsert [OF a] n b
  obtain err2 w2 where "try_row timeout_env row_B ?w1 = (Inl err2, w2)"
    and "failure_of ?w2 (row_id row_B)
           = Some \<lparr>f_id = row_id row_B, f_index = parseInt (row_index row_B),
                   f_url = row_url row_B, f_error = message_of err2, f_attempts = 2,
                   f_lastAttempt = clock w2\<rparr>"
    by blast
  with t r show ?thesis by simp
qed

subsection \<open>The process wiring\<close>

lemma run_failure:
  assumes "main e cfg w = (Inl err, w')"
  shows "run e cfg w = process_exit 1 (w'\<lparr>logged := logged w' @ [Console_Application_Error err]\<rparr>)"
  using assms by (simp add: run_def catch_handler_def then_callback_def process_exit_def)

lemma run_success:
  assumes "main e cfg w = (Inr result, w')" and "exit_status w' = None"
  shows "run e cfg w = process_exit 0 (snd (cleanup e w'))"
  using assms by (simp add: run_def then_callback_def finally_handler_def)

lemma cleanup_never_throws: "\<exists>w'. cleanup e w = (Inr (), w')"
  by (auto simp: cleanup_def io_catch_def io_bind_def mongoose_disconnect_def logger_def
      split: option.splits)

lemma cleanup_disconnects:
  "disconnect_fault e = None \<Longrightarrow>
   cleanup e w = (Inr (), w\<lparr>connected := False, logged := logged w @ [Info_Disconnected]\<rparr>)"
  by (simp add: cleanup_def io_catch_def io_bind_def mongoose_disconnect_def logger_def)

text \<open>
  C9 at a failing run. The store is connected and the data file cannot be read:
  \<open>start\<close> and \<open>main\<close> log the error and rethrow it, the \<open>.catch\<close> handler prints it and
  calls \<open>process.exit(1)\<close>, and the process ends there. The \<open>.finally\<close> handler, which
  holds the call of \<open>cleanup\<close>, never runs: the exit status is 1, the connection is
  still open and no disconnect is logged.
\<close>

theorem run_failure_exits_before_cleanup:
  "run unreadable_env (default_config None None) empty_world
   = \<lparr>images = [], failed_images = [], connected = True, clock = 0,
      logged = [Info_Connected,
                Error_CSV (Error ''ENOENT: no such file or directory''),
                Error_Processing (Error ''ENOENT: no such file or directory''),
                Error_Processing (Error ''ENOENT: no such file or directory''),
                Console_Application_Error (Error ''ENOENT: no such file or directory'')],
      exit_status = Some 1\<rparr>"
  by code_simp

text \<open>A run that succeeds disconnects and exits with status 0.\<close>

lemma run_success_example:
  "run example_env (default_config None None) empty_world
   = \<lparr>images = [\<lparr>img_id = ''A'', img_index = Some 1,
                  img_thumbnail = ''thumbnail of https://x/a.png''\<rparr>],
      failed_images = [], connected = False, clock = 4,
      logged = [Info_Connected, Info_Starting 1, Info_Created ''A'', Info_Batch 1 1 1 1 0,
                Info_Result \<lparr>total = 1, processed = 1, failed = 0\<rparr>, Info_Disconnected],
      exit_status = Some 0\<rparr>"
  by code_simp

subsection \<open>Printing a number and reading it back\<close>







subsection \<open>Retry Controller\<close>



subsection \<open>Where a row is after a pass\<close>

lemma row_pass_settles:
  assumes "distinct (map f_id (failed_images w))" and "row_pass e row w = (Inr ok, w1)"
  shows "distinct (map f_id (failed_images w1)) \<and>
         (\<forall>k. k \<noteq> row_id row \<longrightarrow> failure_of w1 k = failure_of w k \<and> image_of w1 k = image_of w k) \<and>
         (ok \<longrightarrow> has_image w1 row \<and> failure_of w1 (row_id row) = None) \<and>
         (\<not> ok \<longrightarrow> has_failure w1 row)"
proof (cases ok)
  case True
  with assms(2) have "row_pass e row w = (Inr True, w1)" by simp
  from row_pass_True [OF this] obtain u where "try_row e row w = (Inr u, w1)" by blast
  from try_row_Inr [OF this] obtain thumbnail where
    i: "image_of w1 (row_id row)
          = Some \<lparr>img_id = row_id row, img_index = parseInt (row_index row),
                  img_thumbnail = thumbnail\<rparr>" and
    o: "\<forall>k. k \<noteq> row_id row \<longrightarrow> image_of w1 k = image_of w k" and
    l: "failed_images w1 = delete_first (\<lambda>d. f_id d = row_id row) (failed_images w)"
    by blast
  have "distinct (map f_id (failed_images w1))"
    unfolding l using assms(1) by (rule distinct_delete_first)
  moreover have "failure_of w1 (row_id row) = None"
    unfolding failure_of_def l using assms(1) by (rule find_delete_first_same)
  moreover have "failure_of w1 k = failure_of w k" if "k \<noteq> row_id row" for k
    unfolding failure_of_def l by (rule find_delete_first_other) (use that in auto)
  moreover have "has_image w1 row" by (simp add: has_image_def i)
  ultimately show ?thesis using True o by simp
next
  case False
  with assms(2) have "row_pass e row w = (Inr False, w1)" by simp
  from row_pass_False [OF this] obtain err w0 where
    t: "try_row e row w = (Inl err, w0)" and w1: "w1 = recorded row err w0"
    by blast
  from try_row_Inl [OF t] have
    l: "failed_images w0 = failed_images w" and
    o: "\<forall>k. k \<noteq> row_id row \<longrightarrow> image_of w0 k = image_of w k"
    by simp_all
  have "distinct (map f_id (failed_images w1))"
    using assms(1) by (simp add: w1 recorded_def l distinct_upsert_failure)
  moreover have "failure_of w1 k = failure_of w k" if "k \<noteq> row_id row" for k
    using that by (simp add: w1 recorded_def failure_of_def l failure_after_upsert_other)
  moreover have "image_of w1 k = image_of w0 k" for k
    by (simp add: w1 recorded_def image_of_def)
  moreover have "has_failure w1 row"
    by (simp add: has_failure_def w1 recorded_def failure_of_def failure_after_upsert_same
        split: option.splits)
  ultimately show ?thesis using False o by simp
qed

lemma rows_pass_settles:
  assumes "distinct (map row_id rows)" and "distinct (map f_id (failed_images w))"
    and "rows_pass e rows w = (Inr oks, v)"
  shows "distinct (map f_id (failed_images v)) \<and>
         (\<forall>k. k \<notin> row_id ` set rows \<longrightarrow> failure_of v k = failure_of w k \<and> image_of v k = image_of w k) \<and>
         (\<forall>i < length rows.
            (oks ! i \<longrightarrow> has_image v (rows ! i) \<and> failure_of v (row_id (rows ! i)) = None) \<and>
            (\<not> oks ! i \<longrightarrow> has_failure v (rows ! i)))"
  using assms
proof (induction rows arbitrary: w oks)
  case Nil
  then show ?case by (simp add: io_return_def)
next
  case (Cons row rows)
  from Cons.prems(3) obtain ok w1 oks' where
    r: "row_pass e row w = (Inr ok, w1)" and
    rs: "rows_pass e rows w1 = (Inr oks', v)" and
    oks: "oks = ok # oks'"
    by (auto simp: io_bind_def io_return_def split: prod.splits sum.splits)
  from row_pass_settles [OF Cons.prems(2) r] have
    d1: "distinct (map f_id (failed_images w1))" and
    o1: "\<forall>k. k \<noteq> row_id row \<longrightarrow> failure_of w1 k = failure_of w k \<and> image_of w1 k = image_of w k" and
    s1: "ok \<longrightarrow> has_image w1 row \<and> failure_of w1 (row_id row) = None" and
    f1: "\<not> ok \<longrightarrow> has_failure w1 row"
    by simp_all
  from Cons.prems(1) have dr: "distinct (map row_id rows)" and nr: "row_id row \<notin> row_id ` set rows"
    by simp_all
  from Cons.IH [OF dr d1 rs] have
    d2: "distinct (map f_id (failed_images v))" and
    o2: "\<forall>k. k \<notin> row_id ` set rows \<longrightarrow> failure_of v k = failure_of w1 k \<and> image_of v k = image_of w1 k" and
    s2: "\<forall>i < length rows.
            (oks' ! i \<longrightarrow> has_image v (rows ! i) \<and> failure_of v (row_id (rows ! i)) = None) \<and>
            (\<not> oks' ! i \<longrightarrow> has_failure v (rows ! i))"
    by simp_all
  from o2 nr have same: "failure_of v (row_id row) = failure_of w1 (row_id row)"
    "image_of v (row_id row) = image_of w1 (row_id row)"
    by simp_all
  then have hv: "has_image v row = has_image w1 row" "has_failure v row = has_failure w1 row"
    by (simp_all add: has_image_def has_failure_def)
  have others: "\<forall>k. k \<notin> row_id ` set (row # rows) \<longrightarrow>
      failure_of v k = failure_of w k \<and> image_of v k = image_of w k"
    using o1 o2 by simp
  have each: "\<forall>i < length (row # rows).
            (oks ! i \<longrightarrow> has_image v ((row # rows) ! i) \<and>
               failure_of v (row_id ((row # rows) ! i)) = None) \<and>
            (\<not> oks ! i \<longrightarrow> has_failure v ((row # rows) ! i))"
  proof (intro allI impI)
    fix i assume "i < length (row # rows)"
    show "(oks ! i \<longrightarrow> has_image v ((row # rows) ! i) \<and>
               failure_of v (row_id ((row # rows) ! i)) = None) \<and>
            (\<not> oks ! i \<longrightarrow> has_failure v ((row # rows) ! i))"
    proof (cases i)
      case 0
      with s1 f1 same hv oks show ?thesis by simp
    next
      case (Suc j)
      with \<open>i < length (row # rows)\<close> have "j < length rows" by simp
      with s2 Suc oks show ?thesis by simp
    qed
  qed
  from d2 others each show ?case by blast
qed

lemma store_equal_views:
  assumes "store_equal w v"
  shows "image_of w = image_of v" and "failure_of w = failure_of v"
    and "has_image w = has_image v" and "has_failure w = has_failure v"
  using assms
  by (auto simp: store_equal_def image_of_def failure_of_def has_image_def has_failure_def
      fun_eq_iff)

text \<open>
  C6, as the claim states it, fails. First, a row whose first pass succeeds and whose
  second pass fails (the hosts stop serving in between) is in both collections after
  the second pass: \<open>images\<close> still has its entry with the row's index and \<open>failed_images\<close>
  has an entry with one attempt. Second, of two rows with the same id that both succeed
  in one pass, the first is in neither: \<open>images\<close> has the index of the second row for the
  id, and the id has no ledger entry.
\<close>

theorem pass_settles_counterexample:
  "fst (processImages fading_env (Some 50) [row_A] empty_world)
     = Inr \<lparr>total = 1, processed = 1, failed = 0\<rparr> \<and>
   fst (processImages fading_env (Some 50) [row_A]
          (snd (processImages fading_env (Some 50) [row_A] empty_world)))
     = Inr \<lparr>total = 1, processed = 0, failed = 1\<rparr> \<and>
   has_image (snd (processImages fading_env (Some 50) [row_A]
                (snd (processImages fading_env (Some 50) [row_A] empty_world)))) row_A \<and>
   has_failure (snd (processImages fading_env (Some 50) [row_A]
                  (snd (processImages fading_env (Some 50) [row_A] empty_world)))) row_A \<and>
   fst (processImages example_env (Some 50) [row_A, row_A7] empty_world)
     = Inr \<lparr>total = 2, processed = 2, failed = 0\<rparr> \<and>
   \<not> has_image (snd (processImages example_env (Some 50) [row_A, row_A7] empty_world)) row_A \<and>
   \<not> has_failure (snd (processImages example_env (Some 50) [row_A, row_A7] empty_world)) row_A"
  by code_simp

text \<open>
  C6, amended. Take a pass with a batch size of at least 1 over rows with pairwise
  distinct ids, started with a ledger that has at most one entry per id, and let it
  return. Then for every row: if the row succeeded, \<open>images\<close> has an entry for its id with
  the row's index and \<open>failed_images\<close> has no entry for its id, whether it had one
  before or not; if the row failed, \<open>failed_images\<close> has an entry for its id with at least
  one attempt (and \<open>images\<close> may or may not have an entry for the id). So exactly one of
  "in \<open>images\<close> with the row's index and absent from the ledger" and "in the ledger with
  at least one attempt" holds for every row, and the ledger still has at most one entry
  per id.
\<close>

theorem pass_settles_every_row:
  assumes "distinct (map row_id rows)" and "distinct (map f_id (failed_images w))"
    and "1 \<le> toInteger bs" and "processImages e bs rows w = (Inr r, w')"
  shows "\<exists>oks v. rows_pass e rows w = (Inr oks, v) \<and> store_equal w' v \<and>
           length oks = length rows \<and>
           (\<forall>i < length rows.
              (oks ! i \<longrightarrow> has_image w' (rows ! i) \<and> failure_of w' (row_id (rows ! i)) = None) \<and>
              (\<not> oks ! i \<longrightarrow> has_failure w' (rows ! i))) \<and>
           (\<forall>row \<in> set rows.
              (has_image w' row \<and> failure_of w' (row_id row) = None) \<noteq> has_failure w' row) \<and>
           distinct (map f_id (failed_images w'))"
proof -
  obtain res v where v: "rows_pass e rows w = (res, v)" by (cases "rows_pass e rows w")
  from processImages_rows_pass [OF assms(3), of e rows w] v assms(4)
  obtain oks where res: "res = Inr oks" and eq: "store_equal w' v"
    by (cases res) auto
  from v res have rp: "rows_pass e rows w = (Inr oks, v)" by simp
  then have len: "length oks = length rows" by (rule rows_pass_length)
  note views = store_equal_views [OF eq]
  from rows_pass_settles [OF assms(1,2) rp] have
    d: "distinct (map f_id (failed_images v))" and
    s: "\<forall>i < length rows.
            (oks ! i \<longrightarrow> has_image v (rows ! i) \<and> failure_of v (row_id (rows ! i)) = None) \<and>
            (\<not> oks ! i \<longrightarrow> has_failure v (rows ! i))"
    by simp_all
  have s': "\<forall>i < length rows.
            (oks ! i \<longrightarrow> has_image w' (rows ! i) \<and> failure_of w' (row_id (rows ! i)) = None) \<and>
            (\<not> oks ! i \<longrightarrow> has_failure w' (rows ! i))"
    using s by (simp add: views)
  have x: "\<forall>row \<in> set rows.
              (has_image w' row \<and> failure_of w' (row_id row) = None) \<noteq> has_failure w' row"
  proof
    fix row assume "row \<in> set rows"
    then obtain i where i: "i < length rows" "rows ! i = row" by (auto simp: in_set_conv_nth)
    show "(has_image w' row \<and> failure_of w' (row_id row) = None) \<noteq> has_failure w' row"
    proof (cases "oks ! i")
      case True
      with s' i have "has_image w' row \<and> failure_of w' (row_id row) = None" by auto
      then show ?thesis by (auto simp: has_failure_def)
    next
      case False
      with s' i have "has_failure w' row" by auto
      then show ?thesis by (auto simp: has_failure_def split: option.splits)
    qed
  qed
  have d': "distinct (map f_id (failed_images w'))"
    using d eq by (simp add: store_equal_def)
  from rp eq len s' x d' show ?thesis by blast
qed

theorem pass_settles_every_row_witness:
  "has_image (snd (processImages example_env (Some 2) five_rows empty_world)) (five_rows ! 0) \<and>
   failure_of (snd (processImages example_env (Some 2) five_rows empty_world))
     (row_id (five_rows ! 0)) = None \<and>
   has_failure (snd (processImages example_env (Some 2) five_rows empty_world)) (five_rows ! 1)"
proof -
  let ?w' = "snd (processImages example_env (Some 2) five_rows empty_world)"
  have a1: "distinct (map row_id five_rows)" by code_simp
  have a2: "distinct (map f_id (failed_images empty_world))" by code_simp
  have a3: "1 \<le> toInteger (Some 2)" by (simp add: toInteger_def)
  have "fst (processImages example_env (Some 2) five_rows empty_world)
          = Inr \<lparr>total = 5, processed = 4, failed = 1\<rparr>"
    by code_simp
  then have a4: "processImages example_env (Some 2) five_rows empty_world
                 = (Inr \<lparr>total = 5, processed = 4, failed = 1\<rparr>, ?w')"
    by (simp add: prod_eq_iff)
  have o: "fst (rows_pass example_env five_rows empty_world)
           = Inr [True, False, True, True, True]"
    by code_simp
  have n: "length five_rows = 5" by code_simp
  from pass_settles_every_row [OF a1 a2 a3 a4] obtain oks v where
    rp: "rows_pass example_env five_rows empty_world = (Inr oks, v)" and
    s: "\<forall>i < length five_rows.
          (oks ! i \<longrightarrow> has_image ?w' (five_rows ! i) \<and>
             failure_of ?w' (row_id (five_rows ! i)) = None) \<and>
          (\<not> oks ! i \<longrightarrow> has_failure ?w' (five_rows ! i))"
    by blast
  from rp o have oks: "oks = [True, False, True, True, True]" by simp
  from s n have "(oks ! 0 \<longrightarrow> has_image ?w' (five_rows ! 0) \<and>
             failure_of ?w' (row_id (five_rows ! 0)) = None)"
    and "(\<not> oks ! 1 \<longrightarrow> has_failure ?w' (five_rows ! 1))"
    by simp_all
  with oks show ?thesis by simp
qed

subsection \<open>A pass in which every row succeeds\<close>

lemma count_list_all: "count_list xs x = length xs \<Longrightarrow> \<forall>y \<in> set xs. y = x"
proof (induction xs)
  case Nil
  show ?case by simp
next
  case (Cons a xs)
  have le: "count_list xs x \<le> length xs" by (rule count_list_le_length)
  from Cons.prems le have "a = x \<and> count_list xs x = length xs"
    by (auto split: if_splits)
  with Cons.IH show ?case by simp
qed

lemma fold_update_lookup:
  fixes key :: "'r \<Rightarrow> 'k" and val :: "'r \<Rightarrow> 'v"
  shows "fold (\<lambda>row m. m(key row := Some (val row))) rows m k
   = (case find (\<lambda>row. key row = k) (rev rows) of
        None \<Rightarrow> m k
      | Some row \<Rightarrow> Some (val row))"
proof -
  define f where "f = (\<lambda>row (m :: 'k \<Rightarrow> 'v option). m(key row := Some (val row)))"
  have step: "f x m k = (if k = key x then Some (val x) else m k)" for x m
    by (simp add: f_def)
  have "fold f rows m k
        = (case find (\<lambda>row. key row = k) (rev rows) of
             None \<Rightarrow> m k
           | Some row \<Rightarrow> Some (val row))" for m
  proof (induction rows arbitrary: m)
    case Nil
    show ?case by simp
  next
    case (Cons x xs)
    show ?case
      by (auto simp: Cons.IH find_append step split: option.splits)
  qed
  then show ?thesis unfolding f_def .
qed

lemma fold_update_twice:
  "fold (\<lambda>row m. m(key row := Some (val row))) rows
     (fold (\<lambda>row m. m(key row := Some (val row))) rows m)
   = fold (\<lambda>row m. m(key row := Some (val row))) rows m"
  by (rule ext) (simp add: fold_update_lookup split: option.splits)

lemma fold_update_present:
  assumes "row \<in> set rows"
  shows "fold (\<lambda>row m. m(key row := Some (val row))) rows m (key row) \<noteq> None"
proof -
  from assms have "key row \<in> key ` set (rev rows)" by simp
  then have "find (\<lambda>r. key r = key row) (rev rows) \<noteq> None"
    by (simp only: find_key_None) simp
  then show ?thesis by (auto simp: fold_update_lookup split: option.splits)
qed

lemma set_fold_delete:
  "set (fold (\<lambda>row. delete_first (\<lambda>d. key d = rkey row)) rows docs) \<subseteq> set docs"
proof (induction rows arbitrary: docs)
  case Nil
  show ?case by simp
next
  case (Cons x xs)
  from Cons [of "delete_first (\<lambda>d. key d = rkey x) docs"] set_delete_first [of _ docs]
  show ?case by fastforce
qed

lemma delete_first_absent: "k \<notin> key ` set docs \<Longrightarrow> delete_first (\<lambda>d. key d = k) docs = docs"
  by (induction docs) auto

lemma fold_delete_absent:
  assumes "\<forall>row \<in> set rows. rkey row \<notin> key ` set docs"
  shows "fold (\<lambda>row. delete_first (\<lambda>d. key d = rkey row)) rows docs = docs"
  using assms by (induction rows) (simp_all add: delete_first_absent)

lemma delete_first_removes:
  "distinct (map key docs) \<Longrightarrow> k \<notin> key ` set (delete_first (\<lambda>d. key d = k) docs)"
  using find_delete_first_same [of key docs k] find_key_None [of key k] by simp

lemma fold_delete_removes:
  assumes "distinct (map key docs)" and "row \<in> set rows"
  shows "rkey row \<notin> key ` set (fold (\<lambda>row. delete_first (\<lambda>d. key d = rkey row)) rows docs)"
  using assms
proof (induction rows arbitrary: docs)
  case Nil
  then show ?case by simp
next
  case (Cons x xs)
  let ?docs = "delete_first (\<lambda>d. key d = rkey x) docs"
  have d: "distinct (map key ?docs)" using Cons.prems(1) by (rule distinct_delete_first)
  show ?case
  proof (cases "row \<in> set xs")
    case True
    from Cons.IH [OF d True] show ?thesis by simp
  next
    case False
    with Cons.prems(2) have "row = x" by simp
    moreover have "rkey x \<notin> key ` set ?docs"
      using Cons.prems(1) by (rule delete_first_removes)
    moreover have "set (fold (\<lambda>row. delete_first (\<lambda>d. key d = rkey row)) xs ?docs) \<subseteq> set ?docs"
      by (rule set_fold_delete)
    ultimately show ?thesis by auto
  qed
qed

lemma row_pass_success:
  assumes "row_pass e row w = (Inr True, w1)"
  shows "index_of w1 = (index_of w)(row_id row := Some (parseInt (row_index row))) \<and>
         failed_images w1 = delete_first (\<lambda>d. f_id d = row_id row) (failed_images w) \<and>
         map img_id (images w1)
           = (if image_of w (row_id row) = None then map img_id (images w) @ [row_id row]
              else map img_id (images w)) \<and>
         (steady_host e (row_url row) \<longrightarrow>
            image_of w1 = (image_of w)(row_id row := Some (stored_image e row)))"
proof -
  from row_pass_True [OF assms(1)] obtain u where t: "try_row e row w = (Inr u, w1)" by blast
  from try_row_Inr [OF t] obtain thumbnail where
    f: "fetch_resize e (Suc (clock w)) (row_url row) = Inr thumbnail" and
    i: "image_of w1 (row_id row)
          = Some \<lparr>img_id = row_id row, img_index = parseInt (row_index row),
                  img_thumbnail = thumbnail\<rparr>" and
    o: "\<forall>k. k \<noteq> row_id row \<longrightarrow> image_of w1 k = image_of w k" and
    l: "failed_images w1 = delete_first (\<lambda>d. f_id d = row_id row) (failed_images w)"
    by blast
  from i o have x: "index_of w1 = (index_of w)(row_id row := Some (parseInt (row_index row)))"
    by (auto simp: fun_eq_iff index_of_def)
  have v: "image_of w1 = (image_of w)(row_id row := Some (stored_image e row))"
    if s: "steady_host e (row_url row)"
  proof -
    from f s have "fetch_resize e 0 (row_url row) = Inr thumbnail"
      unfolding steady_host_def by metis
    with i have "image_of w1 (row_id row) = Some (stored_image e row)"
      by (simp add: stored_image_def)
    with o show ?thesis by (auto simp: fun_eq_iff)
  qed
  from try_row_Inr_world [OF t] obtain th where
    im: "images w1 =
           (case find (\<lambda>d. img_id d = row_id row) (images w) of
              Some existingImage \<Rightarrow>
                update_first (\<lambda>d. img_id d = row_id row)
                  (\<lambda>d. d\<lparr>img_index := parseInt (row_index row), img_thumbnail := th\<rparr>) (images w)
            | None \<Rightarrow>
                images w @ [\<lparr>img_id = row_id row, img_index = parseInt (row_index row),
                             img_thumbnail = th\<rparr>])"
    by auto
  have keep: "map img_id
                (update_first (\<lambda>d. img_id d = row_id row)
                   (\<lambda>d. d\<lparr>img_index := parseInt (row_index row), img_thumbnail := th\<rparr>) (images w))
              = map img_id (images w)"
    by (rule keys_update_first) simp
  have ids: "map img_id (images w1)
           = (if image_of w (row_id row) = None then map img_id (images w) @ [row_id row]
              else map img_id (images w))"
    by (auto simp: im image_of_def keep split: option.splits)
  from x v l ids show ?thesis by blast
qed

lemma rows_pass_all_success:
  assumes "rows_pass e rows w = (Inr oks, v)" and "\<forall>b \<in> set oks. b"
  shows "index_of v
           = fold (\<lambda>row m. m(row_id row := Some (parseInt (row_index row)))) rows (index_of w) \<and>
         failed_images v
           = fold (\<lambda>row. delete_first (\<lambda>d. f_id d = row_id row)) rows (failed_images w) \<and>
         ((\<forall>row \<in> set rows. steady_host e (row_url row)) \<longrightarrow>
            image_of v = fold (\<lambda>row m. m(row_id row := Some (stored_image e row))) rows (image_of w))"
  using assms
proof (induction rows arbitrary: w oks)
  case Nil
  then show ?case by (simp add: io_return_def)
next
  case (Cons row rows)
  from Cons.prems(1) obtain ok w1 oks' where
    r: "row_pass e row w = (Inr ok, w1)" and
    rs: "rows_pass e rows w1 = (Inr oks', v)" and
    oks: "oks = ok # oks'"
    by (auto simp: io_bind_def io_return_def split: prod.splits sum.splits)
  from oks Cons.prems(2) have ok: "ok" and oks': "\<forall>b \<in> set oks'. b" by auto
  from r ok have "row_pass e row w = (Inr True, w1)" by simp
  from row_pass_success [OF this] have
    x1: "index_of w1 = (index_of w)(row_id row := Some (parseInt (row_index row)))" and
    l1: "failed_images w1 = delete_first (\<lambda>d. f_id d = row_id row) (failed_images w)" and
    i1: "steady_host e (row_url row) \<longrightarrow>
           image_of w1 = (image_of w)(row_id row := Some (stored_image e row))"
    by blast+
  from Cons.IH [OF rs oks'] have
    x2: "index_of v
           = fold (\<lambda>row m. m(row_id row := Some (parseInt (row_index row)))) rows (index_of w1)" and
    l2: "failed_images v
           = fold (\<lambda>row. delete_first (\<lambda>d. f_id d = row_id row)) rows (failed_images w1)" and
    i2: "(\<forall>row \<in> set rows. steady_host e (row_url row)) \<longrightarrow>
            image_of v = fold (\<lambda>row m. m(row_id row := Some (stored_image e row))) rows (image_of w1)"
    by blast+
  have "index_of v
           = fold (\<lambda>row m. m(row_id row := Some (parseInt (row_index row)))) (row # rows) (index_of w)"
    by (simp add: x2 x1)
  moreover have "failed_images v
           = fold (\<lambda>row. delete_first (\<lambda>d. f_id d = row_id row)) (row # rows) (failed_images w)"
    by (simp add: l2 l1)
  moreover have "image_of v
      = fold (\<lambda>row m. m(row_id row := Some (stored_image e row))) (row # rows) (image_of w)"
    if "\<forall>r \<in> set (row # rows). steady_host e (row_url r)"
  proof -
    from that have "steady_host e (row_url row)" and "\<forall>r \<in> set rows. steady_host e (row_url r)"
      by simp_all
    with i1 i2 show ?thesis by simp
  qed
  ultimately show ?case by blast
qed

lemma rows_pass_no_insert:
  assumes "rows_pass e rows w = (Inr oks, v)" and "\<forall>b \<in> set oks. b"
    and "\<forall>row \<in> set rows. index_of w (row_id row) \<noteq> None"
  shows "map img_id (images v) = map img_id (images w)"
  using assms
proof (induction rows arbitrary: w oks)
  case Nil
  then show ?case by (simp add: io_return_def)
next
  case (Cons row rows)
  from Cons.prems(1) obtain ok w1 oks' where
    r: "row_pass e row w = (Inr ok, w1)" and
    rs: "rows_pass e rows w1 = (Inr oks', v)" and
    oks: "oks = ok # oks'"
    by (auto simp: io_bind_def io_return_def split: prod.splits sum.splits)
  from oks Cons.prems(2) have ok: "ok" and oks': "\<forall>b \<in> set oks'. b" by auto
  from Cons.prems(3) have here: "image_of w (row_id row) \<noteq> None"
    by (simp add: index_of_def)
  from r ok have "row_pass e row w = (Inr True, w1)" by simp
  from row_pass_success [OF this] here have
    x1: "index_of w1 = (index_of w)(row_id row := Some (parseInt (row_index row)))" and
    k1: "map img_id (images w1) = map img_id (images w)"
    by simp_all
  from Cons.prems(3) have "\<forall>row \<in> set rows. index_of w1 (row_id row) \<noteq> None"
    by (simp add: x1)
  from Cons.IH [OF rs oks' this] k1 show ?case by simp
qed

subsection \<open>A second pass over the same rows\<close>

lemma processImages_all_success:
  assumes "1 \<le> toInteger bs" and "processImages e bs rows w = (Inr r, w')"
    and "processed r = int (length rows)"
  shows "\<exists>oks v. rows_pass e rows w = (Inr oks, v) \<and> store_equal w' v \<and> (\<forall>b \<in> set oks. b)"
proof -
  obtain res v where v: "rows_pass e rows w = (res, v)" by (cases "rows_pass e rows w")
  from processImages_rows_pass [OF assms(1), of e rows w] v assms(2)
  obtain oks where res: "res = Inr oks" and eq: "store_equal w' v"
    and r: "r = \<lparr>total = int (length rows), processed = int (count_list oks True),
                failed = int (count_list oks False)\<rparr>"
    by (cases res) auto
  from v res have "length oks = length rows" by (simp add: rows_pass_length)
  with r assms(3) have "count_list oks True = length oks" by simp
  from count_list_all [OF this] have "\<forall>b \<in> set oks. b" by simp
  with v res eq show ?thesis by blast
qed

lemma all_success_pass:
  assumes "1 \<le> toInteger bs" and "processImages e bs rows w = (Inr r, w')"
    and "processed r = int (length rows)"
  shows "index_of w'
           = fold (\<lambda>row m. m(row_id row := Some (parseInt (row_index row)))) rows (index_of w)"
    and "failed_images w'
           = fold (\<lambda>row. delete_first (\<lambda>d. f_id d = row_id row)) rows (failed_images w)"
    and "(\<forall>row \<in> set rows. index_of w (row_id row) \<noteq> None) \<longrightarrow>
           map img_id (images w') = map img_id (images w)"
    and "(\<forall>row \<in> set rows. steady_host e (row_url row)) \<longrightarrow>
           image_of w' = fold (\<lambda>row m. m(row_id row := Some (stored_image e row))) rows (image_of w)"
proof -
  from processImages_all_success [OF assms(1,2,3)] obtain oks v where
    p: "rows_pass e rows w = (Inr oks, v)" and eq: "store_equal w' v" and
    a: "\<forall>b \<in> set oks. b"
    by blast
  from eq have im: "images w' = images v" and fl: "failed_images w' = failed_images v"
    by (simp_all add: store_equal_def)
  from im have io: "image_of w' = image_of v" by (simp add: image_of_def fun_eq_iff)
  then have xo: "index_of w' = index_of v" by (simp add: index_of_def fun_eq_iff)
  note all = rows_pass_all_success [OF p a]
  from all
  show "index_of w'
           = fold (\<lambda>row m. m(row_id row := Some (parseInt (row_index row)))) rows (index_of w)"
    unfolding xo by (rule conjunct1)
  from all
  show "failed_images w'
           = fold (\<lambda>row. delete_first (\<lambda>d. f_id d = row_id row)) rows (failed_images w)"
    unfolding fl by blast
  from all
  show "(\<forall>row \<in> set rows. steady_host e (row_url row)) \<longrightarrow>
           image_of w' = fold (\<lambda>row m. m(row_id row := Some (stored_image e row))) rows (image_of w)"
    unfolding io by blast
  show "(\<forall>row \<in> set rows. index_of w (row_id row) \<noteq> None) \<longrightarrow>
           map img_id (images w') = map img_id (images w)"
  proof
    assume "\<forall>row \<in> set rows. index_of w (row_id row) \<noteq> None"
    from rows_pass_no_insert [OF p a this]
    show "map img_id (images w') = map img_id (images w)" unfolding im .
  qed
qed

text \<open>
  C8. Run \<open>processImages\<close> twice over the same rows, the second pass starting where the
  first one ended, with every row succeeding in both passes. Then after the second pass
  \<open>images\<close> holds for every id the index it held after the first pass, and no document
  has been inserted; when moreover every row's host gives the same thumbnail whenever it
  is asked, \<open>images\<close> has for every id the very entry it had after the first pass, index
  and thumbnail. Every entry of the failure ledger after the second pass is an entry it
  had after the first, so no attempts counter has grown; and when the ledger started
  with at most one entry per id, it is the very same ledger. Rows may share ids.
\<close>

theorem second_pass_changes_nothing:
  assumes "processImages e bs rows w0 = (Inr r1, w1)" and "processed r1 = int (length rows)"
    and "processImages e bs rows w1 = (Inr r2, w2)" and "processed r2 = int (length rows)"
  shows "index_of w2 = index_of w1 \<and> map img_id (images w2) = map img_id (images w1) \<and>
         ((\<forall>row \<in> set rows. steady_host e (row_url row)) \<longrightarrow> image_of w2 = image_of w1) \<and>
         set (failed_images w2) \<subseteq> set (failed_images w1) \<and>
         (distinct (map f_id (failed_images w0)) \<longrightarrow> failed_images w2 = failed_images w1)"
proof (cases "1 \<le> toInteger bs")
  case False
  then have c: "chunk rows bs = []" using chunk_nonpositive [of bs rows] by simp
  have "processImages e bs rows w1
        = (Inr \<lparr>total = int (length rows), processed = 0, failed = 0\<rparr>, w1)"
    unfolding processImages_def Let_def c
    by (simp add: enumerate_eq_zip io_bind_def io_return_def)
  with assms(3) have "w2 = w1" by simp
  then show ?thesis by simp
next
  case True
  note p1 = all_success_pass [OF True assms(1,2)]
  note p2 = all_success_pass [OF True assms(3,4)]
  have ix: "index_of w2 = index_of w1"
    unfolding p2(1) p1(1) by (rule fold_update_twice)
  have present: "\<forall>row \<in> set rows. index_of w1 (row_id row) \<noteq> None"
  proof
    fix row assume "row \<in> set rows"
    then show "index_of w1 (row_id row) \<noteq> None"
      unfolding p1(1) by (rule fold_update_present)
  qed
  with p2(3) have ids: "map img_id (images w2) = map img_id (images w1)" by blast
  have im: "image_of w2 = image_of w1" if s: "\<forall>row \<in> set rows. steady_host e (row_url row)"
  proof -
    from p1(4) s have a: "image_of w1
        = fold (\<lambda>row m. m(row_id row := Some (stored_image e row))) rows (image_of w0)"
      by blast
    from p2(4) s have b: "image_of w2
        = fold (\<lambda>row m. m(row_id row := Some (stored_image e row))) rows (image_of w1)"
      by blast
    show ?thesis unfolding b a by (rule fold_update_twice)
  qed
  have sub: "set (failed_images w2) \<subseteq> set (failed_images w1)"
    unfolding p2(2) by (rule set_fold_delete)
  have same: "failed_images w2 = failed_images w1" if d: "distinct (map f_id (failed_images w0))"
  proof -
    have "\<forall>row \<in> set rows. row_id row \<notin> f_id ` set (failed_images w1)"
    proof
      fix row assume "row \<in> set rows"
      with d show "row_id row \<notin> f_id ` set (failed_images w1)"
        unfolding p1(2) by (rule fold_delete_removes)
    qed
    then show ?thesis
      unfolding p2(2) by (rule fold_delete_absent)
  qed
  from ix ids im sub same show ?thesis by blast
qed

theorem second_pass_changes_nothing_witness:
  "image_of (snd (processImages example_env (Some 50) [row_A, row_A7]
                (snd (processImages example_env (Some 50) [row_A, row_A7] ledger_world)))) ''A''
   = Some \<lparr>img_id = ''A'', img_index = Some 7, img_thumbnail = ''thumbnail of https://x/a7.png''\<rparr>
   \<and> image_of (snd (processImages example_env (Some 50) [row_A, row_A7] ledger_world)) ''A''
   = Some \<lparr>img_id = ''A'', img_index = Some 7, img_thumbnail = ''thumbnail of https://x/a7.png''\<rparr>
   \<and> failed_images (snd (processImages example_env (Some 50) [row_A, row_A7]
                (snd (processImages example_env (Some 50) [row_A, row_A7] ledger_world))))
   = failed_images ledger_world"
proof -
  let ?w1 = "snd (processImages example_env (Some 50) [row_A, row_A7] ledger_world)"
  let ?w2 = "snd (processImages example_env (Some 50) [row_A, row_A7] ?w1)"
  let ?r = "\<lparr>total = 2, processed = 2, failed = 0\<rparr>"
  have "fst (processImages example_env (Some 50) [row_A, row_A7] ledger_world) = Inr ?r"
    by code_simp
  then have h1: "processImages example_env (Some 50) [row_A, row_A7] ledger_world = (Inr ?r, ?w1)"
    by (simp add: prod_eq_iff)
  have "fst (processImages example_env (Some 50) [row_A, row_A7] ?w1) = Inr ?r"
    by code_simp
  then have h2: "processImages example_env (Some 50) [row_A, row_A7] ?w1 = (Inr ?r, ?w2)"
    by (simp add: prod_eq_iff)
  have n: "processed ?r = int (length [row_A, row_A7])" by simp
  have s: "\<forall>row \<in> set [row_A, row_A7]. steady_host example_env (row_url row)"
    by (simp add: steady_host_def example_env_def)
  have d: "distinct (map f_id (failed_images ledger_world))" by code_simp
  have i: "image_of ?w1 ''A''
           = Some \<lparr>img_id = ''A'', img_index = Some 7,
                   img_thumbnail = ''thumbnail of https://x/a7.png''\<rparr>"
    by code_simp
  have l: "failed_images ?w1 = failed_images ledger_world" by code_simp
  from second_pass_changes_nothing [OF h1 n h2 n] s d
  have "image_of ?w2 = image_of ?w1" and "failed_images ?w2 = failed_images ?w1"
    by blast+
  with i l show ?thesis by simp
qed

end
